theory Spec2Isabelle
  imports Main "HOL-Library.Word"
begin

unbundle bit_operations_syntax

section \<open>Python values and exceptions\<close>

text \<open>
  The packet codec of \<^verbatim>\<open>packet.py\<close>. Python integers are unbounded and are modelled as
  \<^typ>\<open>int\<close>; a \<^verbatim>\<open>bytes\<close> object is a list of 8-bit words, and reading one element yields its
  unsigned value. Every exception the code can raise is a value \<open>Inl e\<close> of a sum type.
\<close>

datatype error = ValueError string | IndexError string

type_synonym bytes = "8 word list"

definition ebind :: "error + 'a \<Rightarrow> ('a \<Rightarrow> error + 'b) \<Rightarrow> error + 'b" where
  "ebind r f = (case r of Inl e \<Rightarrow> Inl e | Inr v \<Rightarrow> f v)"

text \<open>\<^verbatim>\<open>a << k\<close> and \<^verbatim>\<open>a >> k\<close>: a negative shift count raises \<^verbatim>\<open>ValueError\<close>.\<close>

definition lshift :: "int \<Rightarrow> int \<Rightarrow> error + int" where
  "lshift a k = (if k < 0 then Inl (ValueError ''negative shift count'')
                 else Inr (push_bit (nat k) a))"

definition rshift :: "int \<Rightarrow> int \<Rightarrow> error + int" where
  "rshift a k = (if k < 0 then Inl (ValueError ''negative shift count'')
                 else Inr (drop_bit (nat k) a))"

text \<open>\<^verbatim>\<open>octets[k]\<close>: a negative index counts from the end, an index out of range raises.\<close>

definition getitem :: "bytes \<Rightarrow> int \<Rightarrow> error + int" where
  "getitem octets k =
     (let n = int (length octets); j = (if k < 0 then n + k else k)
      in if 0 \<le> j \<and> j < n then Inr (uint (octets ! nat j))
         else Inl (IndexError ''index out of range''))"

text \<open>\<^verbatim>\<open>octets[a:b]\<close> and \<^verbatim>\<open>octets[a:]\<close>: both bounds are clamped to the length, never raising.\<close>

definition clamp_index :: "nat \<Rightarrow> int \<Rightarrow> nat" where
  "clamp_index n a = (if a < 0 then nat (max 0 (int n + a)) else nat (min a (int n)))"

definition slice :: "'a list \<Rightarrow> int \<Rightarrow> int \<Rightarrow> 'a list" where
  "slice xs a b = drop (clamp_index (length xs) a) (take (clamp_index (length xs) b) xs)"

definition slice_from :: "'a list \<Rightarrow> int \<Rightarrow> 'a list" where
  "slice_from xs a = drop (clamp_index (length xs) a) xs"

text \<open>\<^verbatim>\<open>range(n)\<close>, and \<^verbatim>\<open>range(start, stop, step)\<close> for a positive step.\<close>

definition py_range :: "int \<Rightarrow> int list" where
  "py_range n = map int [0..<nat n]"

function range_step :: "int \<Rightarrow> int \<Rightarrow> int \<Rightarrow> int list" where
  "range_step start stop step =
     (if 0 < step \<and> start < stop then start # range_step (start + step) stop step else [])"
  by pat_completeness auto
termination
  by (relation "measure (\<lambda>(start, stop, step). nat (stop - start))") auto

declare range_step.simps [simp del]

text \<open>\<^verbatim>\<open>bytes(l)\<close> for a list of integers: every element must be in \<^verbatim>\<open>range(256)\<close>.\<close>

definition bytes_of_ints :: "int list \<Rightarrow> error + bytes" where
  "bytes_of_ints l =
     (if list_all (\<lambda>x. 0 \<le> x \<and> x < 256) l then Inr (map word_of_int l)
      else Inl (ValueError ''bytes must be in range(0, 256)''))"

text \<open>
  \<^verbatim>\<open>a + b + ...\<close> on byte strings whose operands may raise: the operands are evaluated from
  left to right and the first exception wins.
\<close>

fun bytes_concat :: "(error + bytes) list \<Rightarrow> error + bytes" where
  "bytes_concat [] = Inr []"
| "bytes_concat (r # rs) = ebind r (\<lambda>a. ebind (bytes_concat rs) (\<lambda>b. Inr (a @ b)))"

section \<open>Bit and integer codec\<close>

definition to_bits :: "int \<Rightarrow> int \<Rightarrow> int \<Rightarrow> int \<Rightarrow> error + int" where
  "to_bits octet offset len n_bits =
     ebind (lshift 1 len) (\<lambda>m.
       let mask = m - 1 in
       ebind (rshift octet (n_bits - offset - len)) (\<lambda>v. Inr (v AND mask)))"

fun to_octets_loop :: "int \<Rightarrow> int \<Rightarrow> int list \<Rightarrow> int list \<Rightarrow> error + int list" where
  "to_octets_loop i n_octets [] l = Inr l"
| "to_octets_loop i n_octets (x # xs) l =
     ebind (to_bits i (8 * x) 8 (8 * n_octets)) (\<lambda>b. to_octets_loop i n_octets xs (l @ [b]))"

definition to_octets :: "int \<Rightarrow> int \<Rightarrow> error + bytes" where
  "to_octets i n_octets = ebind (to_octets_loop i n_octets (py_range n_octets) []) bytes_of_ints"

fun to_integer_loop :: "int list \<Rightarrow> int \<Rightarrow> int \<Rightarrow> int \<Rightarrow> error + int" where
  "to_integer_loop [] n_bits l i = Inr i"
| "to_integer_loop (x # xs) n_bits l i =
     ebind (lshift x (l * n_bits)) (\<lambda>v. to_integer_loop xs n_bits (l - 1) (i + v))"

definition to_integer :: "int list \<Rightarrow> int \<Rightarrow> error + int" where
  "to_integer octets n_bits = to_integer_loop octets n_bits (int (length octets) - 1) 0"

fun to_integer_le_loop :: "int list \<Rightarrow> int \<Rightarrow> int \<Rightarrow> int \<Rightarrow> error + int" where
  "to_integer_le_loop [] n_bits l i = Inr i"
| "to_integer_le_loop (x # xs) n_bits l i =
     ebind (lshift x (l * n_bits)) (\<lambda>v. to_integer_le_loop xs n_bits (l + 1) (i + v))"

definition to_integer_le :: "int list \<Rightarrow> int \<Rightarrow> error + int" where
  "to_integer_le octets n_bits = to_integer_le_loop octets n_bits 0 0"

section \<open>Checksum engine\<close>

text \<open>The generator sum of \<^verbatim>\<open>checksum\<close>: one little-endian word per index of the range.\<close>

fun sum_words :: "bytes \<Rightarrow> int list \<Rightarrow> int \<Rightarrow> error + int" where
  "sum_words octets [] s = Inr s"
| "sum_words octets (i # rest) s =
     ebind (to_integer_le (map uint (slice octets i (i + 2))) 8)
       (\<lambda>w. sum_words octets rest (s + w))"

definition checksum :: "bytes \<Rightarrow> error + int" where
  "checksum octets0 =
     (let octets = (if length octets0 mod 2 = 1 then octets0 @ [0] else octets0) in
      ebind (sum_words octets (range_step 0 (int (length octets)) 2) 0) (\<lambda>s.
        let s = drop_bit 16 s + (s AND 0xffff);
            s = s + drop_bit 16 s;
            s = NOT s
        in Inr (((drop_bit 8 s AND 0xff) OR push_bit 8 s) AND 0xffff)))"

section \<open>Address value types\<close>

text \<open>
  \<^verbatim>\<open>MACAddress(octets)\<close> and \<^verbatim>\<open>IPv4Address(octets)\<close> keep \<^verbatim>\<open>tuple(int(o) for o in octets)\<close>:
  one integer per element of the argument, whatever its length.
\<close>

record MACAddress =
  mac_address :: "int list"

record IPv4Address =
  ip_address :: "int list"

definition MACAddress_init :: "bytes \<Rightarrow> MACAddress" where
  "MACAddress_init octets = \<lparr>mac_address = map uint octets\<rparr>"

definition IPv4Address_init :: "bytes \<Rightarrow> IPv4Address" where
  "IPv4Address_init octets = \<lparr>ip_address = map uint octets\<rparr>"

section \<open>The three packet layers\<close>

text \<open>
  Each layer owns the next inner one. The \<^verbatim>\<open>parent\<close> reference of a layer points back at
  the object that owns it, so a method of the TCP layer that reads or updates its parent
  takes the state of the enclosing \<open>IPv4Packet\<close>, whose payload is that TCP layer.
\<close>

record TCPPacket =
  tcp_raw :: bytes
  tcp_source_port :: int
  tcp_dest_port :: int
  tcp_sequence :: int
  tcp_ack_number :: int
  tcp_data_offset :: int
  tcp_reserved :: int
  tcp_NS :: bool
  tcp_CWR :: bool
  tcp_ECE :: bool
  tcp_URG :: bool
  tcp_ACK :: bool
  tcp_PSH :: bool
  tcp_RST :: bool
  tcp_SYN :: bool
  tcp_FIN :: bool
  tcp_window_size :: int
  tcp_checksum :: int
  tcp_urgent_pointer :: int
  tcp_options :: int
  tcp_payload :: bytes

record IPv4Packet =
  ip_raw :: bytes
  ip_version :: int
  ip_ihl :: int
  ip_dscp :: int
  ip_ecn :: int
  ip_length :: int
  ip_identification :: int
  ip_flags :: int
  ip_fragment_offset :: int
  ip_ttl :: int
  ip_protocol :: int
  ip_checksum :: int
  ip_source_address :: IPv4Address
  ip_dest_address :: IPv4Address
  ip_options :: int
  ip_payload :: TCPPacket

record EthernetFrame =
  eth_raw :: bytes
  eth_dest_address :: MACAddress
  eth_source_address :: MACAddress
  eth_ethertype :: int
  eth_payload :: IPv4Packet

subsection \<open>TCPPacket\<close>

definition py_bool :: "int \<Rightarrow> bool" where
  "py_bool i = (i \<noteq> 0)"

definition py_int :: "bool \<Rightarrow> int" where
  "py_int b = (if b then 1 else 0)"

definition TCPPacket_init :: "bytes \<Rightarrow> error + TCPPacket" where
  "TCPPacket_init octets =
     ebind (to_integer (map uint (slice octets 0 2)) 8) (\<lambda>source_port.
     ebind (to_integer (map uint (slice octets 2 4)) 8) (\<lambda>dest_port.
     ebind (to_integer (map uint (slice octets 4 8)) 8) (\<lambda>sequence.
     ebind (to_integer (map uint (slice octets 8 12)) 8) (\<lambda>ack_number.
     ebind (getitem octets 12) (\<lambda>o12.
     ebind (to_bits o12 0 4 8) (\<lambda>data_offset.
     ebind (to_bits o12 4 3 8) (\<lambda>reserved.
     ebind (to_bits o12 7 1 8) (\<lambda>ns.
     ebind (getitem octets 13) (\<lambda>o13.
     ebind (to_bits o13 0 1 8) (\<lambda>cwr.
     ebind (to_bits o13 1 1 8) (\<lambda>ece.
     ebind (to_bits o13 2 1 8) (\<lambda>urg.
     ebind (to_bits o13 3 1 8) (\<lambda>ack.
     ebind (to_bits o13 4 1 8) (\<lambda>psh.
     ebind (to_bits o13 5 1 8) (\<lambda>rst.
     ebind (to_bits o13 6 1 8) (\<lambda>syn.
     ebind (to_bits o13 7 1 8) (\<lambda>fin.
     ebind (to_integer (map uint (slice octets 14 16)) 8) (\<lambda>window_size.
     ebind (to_integer (map uint (slice octets 16 18)) 8) (\<lambda>cksum.
     ebind (to_integer (map uint (slice octets 18 20)) 8) (\<lambda>urgent_pointer.
     let option_words = data_offset - 5 in
     ebind (to_integer (map uint (slice octets 20 (20 + 4 * option_words))) 8) (\<lambda>opts.
     Inr \<lparr>tcp_raw = octets,
          tcp_source_port = source_port, tcp_dest_port = dest_port,
          tcp_sequence = sequence, tcp_ack_number = ack_number,
          tcp_data_offset = data_offset, tcp_reserved = reserved,
          tcp_NS = py_bool ns, tcp_CWR = py_bool cwr, tcp_ECE = py_bool ece,
          tcp_URG = py_bool urg, tcp_ACK = py_bool ack, tcp_PSH = py_bool psh,
          tcp_RST = py_bool rst, tcp_SYN = py_bool syn, tcp_FIN = py_bool fin,
          tcp_window_size = window_size, tcp_checksum = cksum,
          tcp_urgent_pointer = urgent_pointer, tcp_options = opts,
          tcp_payload = slice_from octets (20 + 4 * option_words)\<rparr>)))))))))))))))))))))"

definition TCPPacket_raw_header :: "TCPPacket \<Rightarrow> error + bytes" where
  "TCPPacket_raw_header t =
     bytes_concat
       [to_octets (tcp_source_port t) 2,
        to_octets (tcp_dest_port t) 2,
        to_octets (tcp_sequence t) 4,
        to_octets (tcp_ack_number t) 4,
        to_octets (push_bit 4 (tcp_data_offset t) + push_bit 1 (tcp_reserved t)
                   + py_int (tcp_NS t)) 1,
        ebind (to_integer (map py_int [tcp_CWR t, tcp_ECE t, tcp_URG t, tcp_ACK t,
                                       tcp_PSH t, tcp_RST t, tcp_SYN t, tcp_FIN t]) 1)
          (\<lambda>flags. to_octets flags 1),
        to_octets (tcp_window_size t) 2,
        to_octets (tcp_checksum t) 2,
        to_octets (tcp_urgent_pointer t) 2,
        to_octets (tcp_options t) ((tcp_data_offset t - 5) * 4)]"

definition TCPPacket_raw :: "TCPPacket \<Rightarrow> error + bytes" where
  "TCPPacket_raw t = bytes_concat [TCPPacket_raw_header t, Inr (tcp_payload t)]"

subsection \<open>IPv4Packet\<close>

definition IPv4Packet_init :: "bytes \<Rightarrow> error + IPv4Packet" where
  "IPv4Packet_init octets =
     ebind (getitem octets 0) (\<lambda>o0.
     ebind (to_bits o0 0 4 8) (\<lambda>version.
     if version \<noteq> 4 then Inl (ValueError ''non-ipv4 packet'') else
     ebind (to_bits o0 4 4 8) (\<lambda>ihl.
     ebind (getitem octets 1) (\<lambda>o1.
     ebind (to_bits o1 0 6 8) (\<lambda>dscp.
     ebind (to_bits o1 6 2 8) (\<lambda>ecn.
     ebind (to_integer (map uint (slice octets 2 4)) 8) (\<lambda>len.
     ebind (to_integer (map uint (slice octets 4 6)) 8) (\<lambda>identification.
     ebind (to_integer (map uint (slice octets 6 8)) 8) (\<lambda>flags_and_fragment.
     ebind (to_bits flags_and_fragment 0 3 16) (\<lambda>flags.
     ebind (to_bits flags_and_fragment 3 13 16) (\<lambda>fragment_offset.
     ebind (getitem octets 8) (\<lambda>ttl.
     ebind (getitem octets 9) (\<lambda>protocol.
     if protocol \<noteq> 6 then Inl (ValueError ''non-tcp packet'') else
     ebind (to_integer (map uint (slice octets 10 12)) 8) (\<lambda>cksum.
     let source_address = IPv4Address_init (slice octets 12 16);
         dest_address = IPv4Address_init (slice octets 16 20);
         option_words = ihl - 5 in
     ebind (to_integer (map uint (slice octets 20 (20 + 4 * option_words))) 8) (\<lambda>opts.
     ebind (TCPPacket_init (slice_from octets (20 + 4 * option_words))) (\<lambda>payload.
     Inr \<lparr>ip_raw = octets,
          ip_version = version, ip_ihl = ihl, ip_dscp = dscp, ip_ecn = ecn,
          ip_length = len, ip_identification = identification,
          ip_flags = flags, ip_fragment_offset = fragment_offset,
          ip_ttl = ttl, ip_protocol = protocol, ip_checksum = cksum,
          ip_source_address = source_address, ip_dest_address = dest_address,
          ip_options = opts, ip_payload = payload\<rparr>))))))))))))))))"

definition IPv4Packet_raw_header :: "IPv4Packet \<Rightarrow> error + bytes" where
  "IPv4Packet_raw_header p =
     bytes_concat
       [ebind (to_integer [ip_version p, ip_ihl p] 4) (\<lambda>b. to_octets b 1),
        to_octets (push_bit 2 (ip_dscp p) + ip_ecn p) 1,
        to_octets (ip_length p) 2,
        to_octets (ip_identification p) 2,
        to_octets (push_bit 13 (ip_flags p) + ip_fragment_offset p) 2,
        to_octets (ip_ttl p) 1,
        to_octets (ip_protocol p) 1,
        to_octets (ip_checksum p) 2,
        bytes_of_ints (ip_address (ip_source_address p)),
        bytes_of_ints (ip_address (ip_dest_address p)),
        to_octets (ip_options p) ((ip_ihl p - 5) * 4)]"

definition IPv4Packet_raw :: "IPv4Packet \<Rightarrow> error + bytes" where
  "IPv4Packet_raw p = bytes_concat [IPv4Packet_raw_header p, TCPPacket_raw (ip_payload p)]"

definition IPv4Packet_replace_checksum :: "IPv4Packet \<Rightarrow> error + IPv4Packet" where
  "IPv4Packet_replace_checksum p =
     (let p0 = p\<lparr>ip_checksum := 0\<rparr> in
      ebind (IPv4Packet_raw_header p0) (\<lambda>h.
      ebind (checksum h) (\<lambda>c. Inr (p0\<lparr>ip_checksum := c\<rparr>))))"

definition IPv4Packet_tcp_checksum_bytes :: "IPv4Packet \<Rightarrow> error + bytes" where
  "IPv4Packet_tcp_checksum_bytes p =
     bytes_concat
       [bytes_of_ints (ip_address (ip_source_address p)),
        bytes_of_ints (ip_address (ip_dest_address p)),
        to_octets 0 1,
        to_octets (ip_protocol p) 1,
        ebind (TCPPacket_raw (ip_payload p)) (\<lambda>r. to_octets (int (length r)) 2)]"

subsection \<open>The TCP methods that use the parent\<close>

definition TCPPacket_replace_checksum :: "IPv4Packet \<Rightarrow> error + IPv4Packet" where
  "TCPPacket_replace_checksum p =
     (let p0 = p\<lparr>ip_payload := (ip_payload p)\<lparr>tcp_checksum := 0\<rparr>\<rparr> in
      ebind (IPv4Packet_tcp_checksum_bytes p0) (\<lambda>pseudo.
      ebind (TCPPacket_raw_header (ip_payload p0)) (\<lambda>h.
      ebind (checksum (pseudo @ h)) (\<lambda>c.
        Inr (p0\<lparr>ip_payload := (ip_payload p0)\<lparr>tcp_checksum := c\<rparr>\<rparr>)))))"

definition reset_fields :: "int \<Rightarrow> TCPPacket \<Rightarrow> TCPPacket" where
  "reset_fields sequence t =
     t\<lparr>tcp_NS := False, tcp_CWR := False, tcp_ECE := False, tcp_URG := False,
       tcp_ACK := False, tcp_PSH := False, tcp_RST := True, tcp_SYN := False,
       tcp_FIN := False,
       tcp_sequence := sequence, tcp_ack_number := 0, tcp_window_size := 0,
       tcp_urgent_pointer := 0, tcp_payload := []\<rparr>"

definition TCPPacket_forge_reset :: "IPv4Packet \<Rightarrow> int \<Rightarrow> error + IPv4Packet" where
  "TCPPacket_forge_reset p sequence =
     (let p1 = p\<lparr>ip_payload := reset_fields sequence (ip_payload p)\<rparr> in
      ebind (IPv4Packet_replace_checksum p1) TCPPacket_replace_checksum)"

subsection \<open>EthernetFrame\<close>

definition EthernetFrame_init :: "bytes \<Rightarrow> error + EthernetFrame" where
  "EthernetFrame_init octets =
     (let dest_address = MACAddress_init (slice octets 0 6);
          source_address = MACAddress_init (slice octets 6 12) in
      ebind (getitem octets 12) (\<lambda>o12.
      ebind (getitem octets 13) (\<lambda>o13.
      let ethertype = push_bit 8 o12 + o13 in
      if ethertype \<noteq> 0x0800 then Inl (ValueError ''non-ipv4 packet'') else
      ebind (IPv4Packet_init (slice_from octets 14)) (\<lambda>payload.
      Inr \<lparr>eth_raw = octets, eth_dest_address = dest_address,
           eth_source_address = source_address, eth_ethertype = ethertype,
           eth_payload = payload\<rparr>))))"

definition EthernetFrame_raw :: "EthernetFrame \<Rightarrow> error + bytes" where
  "EthernetFrame_raw f =
     bytes_concat
       [bytes_of_ints (mac_address (eth_dest_address f)),
        bytes_of_ints (mac_address (eth_source_address f)),
        to_octets (eth_ethertype f) 2,
        IPv4Packet_raw (eth_payload f)]"

section \<open>Closed forms of the loops\<close>

text \<open>
  The values the loops of the codec compute, as structural recursions: the big-endian
  bytes of an integer, the big-endian value of a byte string, and the sum of a byte string
  read as little-endian 16-bit words (a last single byte counts as a word of its own).
\<close>

fun be_bytes :: "nat \<Rightarrow> int \<Rightarrow> bytes" where
  "be_bytes 0 i = []"
| "be_bytes (Suc n) i = be_bytes n (drop_bit 8 i) @ [word_of_int i]"

fun be_int :: "bytes \<Rightarrow> int" where
  "be_int [] = 0"
| "be_int (b # bs) = push_bit (8 * length bs) (uint b) + be_int bs"

fun wsum :: "bytes \<Rightarrow> int" where
  "wsum (a # b # r) = uint a + push_bit 8 (uint b) + wsum r"
| "wsum [a] = uint a"
| "wsum [] = 0"

text \<open>The arithmetic of \<^verbatim>\<open>checksum\<close> after the sum: two folds, complement, byte swap.\<close>

definition ck :: "int \<Rightarrow> int" where
  "ck s0 = (let s = drop_bit 16 s0 + (s0 AND 0xffff);
                s = s + drop_bit 16 s;
                s = NOT s
            in ((drop_bit 8 s AND 0xff) OR push_bit 8 s) AND 0xffff)"

text \<open>
  One fold as the code computes it, \<^verbatim>\<open>(s >> 16) + (s & 0xffff)\<close>, in arithmetic: all bits
  above the lower 16 are added to the lower 16.
\<close>

definition fold_carry :: "int \<Rightarrow> int" where
  "fold_carry s = s div 65536 + s mod 65536"

text \<open>The fields a successful decoding assigns, as functions of the buffer.\<close>

definition TCPPacket_fields :: "bytes \<Rightarrow> TCPPacket" where
  "TCPPacket_fields octets =
     \<lparr>tcp_raw = octets,
          tcp_source_port = be_int (slice octets 0 2), tcp_dest_port = be_int (slice octets 2 4),
          tcp_sequence = be_int (slice octets 4 8), tcp_ack_number = be_int (slice octets 8 12),
          tcp_data_offset = take_bit 4 (drop_bit 4 (uint (octets ! 12))),
          tcp_reserved = take_bit 3 (drop_bit 1 (uint (octets ! 12))),
          tcp_NS = py_bool (take_bit 1 (uint (octets ! 12))),
          tcp_CWR = py_bool (take_bit 1 (drop_bit 7 (uint (octets ! 13)))),
          tcp_ECE = py_bool (take_bit 1 (drop_bit 6 (uint (octets ! 13)))),
          tcp_URG = py_bool (take_bit 1 (drop_bit 5 (uint (octets ! 13)))),
          tcp_ACK = py_bool (take_bit 1 (drop_bit 4 (uint (octets ! 13)))),
          tcp_PSH = py_bool (take_bit 1 (drop_bit 3 (uint (octets ! 13)))),
          tcp_RST = py_bool (take_bit 1 (drop_bit 2 (uint (octets ! 13)))),
          tcp_SYN = py_bool (take_bit 1 (drop_bit 1 (uint (octets ! 13)))),
          tcp_FIN = py_bool (take_bit 1 (uint (octets ! 13))),
          tcp_window_size = be_int (slice octets 14 16), tcp_checksum = be_int (slice octets 16 18),
          tcp_urgent_pointer = be_int (slice octets 18 20),
          tcp_options = be_int (slice octets 20
             (20 + 4 * (take_bit 4 (drop_bit 4 (uint (octets ! 12))) - 5))),
          tcp_payload = slice_from octets
             (20 + 4 * (take_bit 4 (drop_bit 4 (uint (octets ! 12))) - 5))\<rparr>"

definition IPv4Packet_fields :: "bytes \<Rightarrow> TCPPacket \<Rightarrow> IPv4Packet" where
  "IPv4Packet_fields octets payload =
     \<lparr>ip_raw = octets,
          ip_version = take_bit 4 (drop_bit 4 (uint (octets ! 0))),
          ip_ihl = take_bit 4 (uint (octets ! 0)),
          ip_dscp = take_bit 6 (drop_bit 2 (uint (octets ! 1))),
          ip_ecn = take_bit 2 (uint (octets ! 1)),
          ip_length = be_int (slice octets 2 4),
          ip_identification = be_int (slice octets 4 6),
          ip_flags = take_bit 3 (drop_bit 13 (be_int (slice octets 6 8))),
          ip_fragment_offset = take_bit 13 (be_int (slice octets 6 8)),
          ip_ttl = uint (octets ! 8), ip_protocol = uint (octets ! 9),
          ip_checksum = be_int (slice octets 10 12),
          ip_source_address = IPv4Address_init (slice octets 12 16),
          ip_dest_address = IPv4Address_init (slice octets 16 20),
          ip_options = be_int (slice octets 20 (20 + 4 * (take_bit 4 (uint (octets ! 0)) - 5))),
          ip_payload = payload\<rparr>"

section \<open>The checksum algorithm as the specification words it\<close>

text \<open>
  Pad with one zero byte if the length is odd; sum the buffer as consecutive 16-bit
  little-endian words; fold the sum by adding the upper 16 bits (bits 16 to 31) into the
  lower 16 bits, twice;
  take the one's complement of the 16-bit result; swap the high and the low byte.
\<close>

definition spec_pad :: "bytes \<Rightarrow> bytes" where
  "spec_pad bs = (if odd (length bs) then bs @ [0] else bs)"

fun spec_le_words :: "bytes \<Rightarrow> int list" where
  "spec_le_words (lo # hi # r) = (uint lo + 256 * uint hi) # spec_le_words r"
| "spec_le_words [lo] = [uint lo]"
| "spec_le_words [] = []"

definition spec_fold :: "int \<Rightarrow> int" where
  "spec_fold s = (s div 65536) mod 65536 + s mod 65536"

definition spec_complement16 :: "int \<Rightarrow> int" where
  "spec_complement16 s = 65535 - s mod 65536"

definition spec_swap16 :: "int \<Rightarrow> int" where
  "spec_swap16 c = (c mod 256) * 256 + (c div 256) mod 256"

definition checksum_spec :: "bytes \<Rightarrow> int" where
  "checksum_spec bs =
     spec_swap16 (spec_complement16 (spec_fold (spec_fold (sum_list (spec_le_words (spec_pad bs))))))"

section \<open>Sample inputs\<close>

text \<open>
  A well-formed frame: Ethernet header, a 20-byte IPv4 header (IHL 5, total length 44), a
  20-byte TCP header (data offset 5, flags PSH and ACK) and four bytes of payload.
\<close>

abbreviation sample_frame :: bytes where
  "sample_frame \<equiv>
     [0x00, 0x11, 0x22, 0x33, 0x44, 0x55, 0x66, 0x77, 0x88, 0x99, 0xaa, 0xbb, 0x08, 0x00,
      0x45, 0x00, 0x00, 0x2c, 0x1c, 0x46, 0x40, 0x00, 0x40, 0x06, 0xb1, 0xe6,
      0xc0, 0xa8, 0x00, 0x01, 0xc0, 0xa8, 0x00, 0xc7,
      0x30, 0x39, 0x00, 0x50, 0x00, 0x00, 0x00, 0x01, 0x00, 0x00, 0x00, 0x02,
      0x50, 0x18, 0x20, 0x00, 0xab, 0xcd, 0x00, 0x00,
      0x68, 0x69, 0x21, 0x0a]"

text \<open>What decoding the sample frame yields.\<close>

abbreviation sample_tcp :: TCPPacket where
  "sample_tcp \<equiv>
     \<lparr>tcp_raw = drop 34 sample_frame,
      tcp_source_port = 12345, tcp_dest_port = 80, tcp_sequence = 1, tcp_ack_number = 2,
      tcp_data_offset = 5, tcp_reserved = 0,
      tcp_NS = False, tcp_CWR = False, tcp_ECE = False, tcp_URG = False, tcp_ACK = True,
      tcp_PSH = True, tcp_RST = False, tcp_SYN = False, tcp_FIN = False,
      tcp_window_size = 8192, tcp_checksum = 0xabcd, tcp_urgent_pointer = 0,
      tcp_options = 0, tcp_payload = [0x68, 0x69, 0x21, 0x0a]\<rparr>"

abbreviation sample_ip :: IPv4Packet where
  "sample_ip \<equiv>
     \<lparr>ip_raw = drop 14 sample_frame,
      ip_version = 4, ip_ihl = 5, ip_dscp = 0, ip_ecn = 0, ip_length = 44,
      ip_identification = 0x1c46, ip_flags = 2, ip_fragment_offset = 0,
      ip_ttl = 64, ip_protocol = 6, ip_checksum = 0xb1e6,
      ip_source_address = \<lparr>ip_address = [192, 168, 0, 1]\<rparr>,
      ip_dest_address = \<lparr>ip_address = [192, 168, 0, 199]\<rparr>,
      ip_options = 0, ip_payload = sample_tcp\<rparr>"

abbreviation sample_decoded :: EthernetFrame where
  "sample_decoded \<equiv>
     \<lparr>eth_raw = sample_frame,
      eth_dest_address = \<lparr>mac_address = [0x00, 0x11, 0x22, 0x33, 0x44, 0x55]\<rparr>,
      eth_source_address = \<lparr>mac_address = [0x66, 0x77, 0x88, 0x99, 0xaa, 0xbb]\<rparr>,
      eth_ethertype = 0x0800, eth_payload = sample_ip\<rparr>"

text \<open>The IPv4 header of the sample frame with its checksum field zeroed.\<close>

abbreviation sample_zeroed_header :: bytes where
  "sample_zeroed_header \<equiv>
     [0x45, 0x00, 0x00, 0x2c, 0x1c, 0x46, 0x40, 0x00, 0x40, 0x06, 0x00, 0x00,
      0xc0, 0xa8, 0x00, 0x01, 0xc0, 0xa8, 0x00, 0xc7]"

text \<open>
  A buffer of 65540 little-endian words whose sum is \<open>2 ^ 32 + 65535\<close>: 65537 words
  \<^verbatim>\<open>0xffff\<close>, two words \<^verbatim>\<open>0x8000\<close>, and a zero word at the even offset 131078.
\<close>

abbreviation big_buffer :: bytes where
  "big_buffer \<equiv> replicate 131074 0xff @ [0x00, 0x80, 0x00, 0x80, 0x00, 0x00]"

text \<open>
  The sample frame with the TCP data offset 4 instead of 5: the header fields declare a
  20-byte IPv4 header, a 16-byte TCP header and a total length of 44, and the buffer has
  the 58 bytes they ask for.
\<close>

abbreviation short_offset_frame :: bytes where
  "short_offset_frame \<equiv>
     [0x00, 0x11, 0x22, 0x33, 0x44, 0x55, 0x66, 0x77, 0x88, 0x99, 0xaa, 0xbb, 0x08, 0x00,
      0x45, 0x00, 0x00, 0x2c, 0x1c, 0x46, 0x40, 0x00, 0x40, 0x06, 0xb1, 0xe6,
      0xc0, 0xa8, 0x00, 0x01, 0xc0, 0xa8, 0x00, 0xc7,
      0x30, 0x39, 0x00, 0x50, 0x00, 0x00, 0x00, 0x01, 0x00, 0x00, 0x00, 0x02,
      0x40, 0x18, 0x20, 0x00, 0xab, 0xcd, 0x00, 0x00,
      0x68, 0x69, 0x21, 0x0a]"

text \<open>
  A frame whose IPv4 buffer has 14 bytes and IHL 0: the version and protocol checks pass,
  and the TCP layer is decoded from the same 14 bytes.
\<close>

abbreviation runt_frame :: bytes where
  "runt_frame \<equiv>
     [0x00, 0x11, 0x22, 0x33, 0x44, 0x55, 0x66, 0x77, 0x88, 0x99, 0xaa, 0xbb, 0x08, 0x00,
      0x40, 0x00, 0x00, 0x0e, 0x00, 0x00, 0x00, 0x00, 0x40, 0x06, 0x00, 0x00, 0x50, 0x10]"

text \<open>
  A frame whose IPv4 buffer has 19 bytes and IHL 1: the TCP layer is decoded from its last
  15 bytes, and the destination address slice \<^verbatim>\<open>octets[16:20]\<close> has three bytes.
\<close>

abbreviation odd_frame :: bytes where
  "odd_frame \<equiv>
     [0x00, 0x11, 0x22, 0x33, 0x44, 0x55, 0x66, 0x77, 0x88, 0x99, 0xaa, 0xbb, 0x08, 0x00,
      0x41, 0x00, 0x00, 0x13, 0x30, 0x39, 0x00, 0x50, 0x40, 0x06, 0x00, 0x00,
      0xc0, 0xa8, 0x00, 0x01, 0x50, 0x10, 0x07]"

text \<open>
  The sample frame without payload (total length 40, flags ACK), padded with six zero
  bytes to the minimum Ethernet frame size of 60 bytes.
\<close>

abbreviation padded_frame :: bytes where
  "padded_frame \<equiv>
     [0x00, 0x11, 0x22, 0x33, 0x44, 0x55, 0x66, 0x77, 0x88, 0x99, 0xaa, 0xbb, 0x08, 0x00,
      0x45, 0x00, 0x00, 0x28, 0x1c, 0x46, 0x40, 0x00, 0x40, 0x06, 0xb1, 0xea,
      0xc0, 0xa8, 0x00, 0x01, 0xc0, 0xa8, 0x00, 0xc7,
      0x30, 0x39, 0x00, 0x50, 0x00, 0x00, 0x00, 0x01, 0x00, 0x00, 0x00, 0x02,
      0x50, 0x10, 0x20, 0x00, 0xab, 0xcd, 0x00, 0x00,
      0x00, 0x00, 0x00, 0x00, 0x00, 0x00]"

section \<open>Properties of the codec\<close>

lemma ebind_Inr [simp]: "ebind (Inr v) f = f v"
  by (simp add: ebind_def)

lemma ebind_Inl [simp]: "ebind (Inl e) f = Inl e"
  by (simp add: ebind_def)

lemma to_bits_value:
  "0 \<le> len \<Longrightarrow> offset + len \<le> n_bits \<Longrightarrow>
   to_bits x offset len n_bits = Inr (take_bit (nat len) (drop_bit (nat (n_bits - offset - len)) x))"
  by (simp add: to_bits_def lshift_def rshift_def take_bit_eq_mask mask_eq_exp_minus_1)

lemma to_octets_loop_value:
  "\<forall>x\<in>set xs. 0 \<le> x \<and> x < n \<Longrightarrow>
   to_octets_loop i n xs l = Inr (l @ map (\<lambda>x. take_bit 8 (drop_bit (nat (8 * n - 8 * x - 8)) i)) xs)"
  by (induction xs arbitrary: l) (simp_all add: to_bits_value)

lemma bytes_of_ints_take_bit:
  "bytes_of_ints (map (\<lambda>x. take_bit 8 (f x)) xs) = Inr (map (\<lambda>x. word_of_int (f x)) xs)"
  using take_bit_int_less_exp [of 8]
  by (simp add: bytes_of_ints_def list_all_iff o_def word_of_int_eq_iff)

lemma be_bytes_map:
  "be_bytes n i = map (\<lambda>x. word_of_int (drop_bit (8 * (n - 1 - x)) i)) [0..<n]"
proof (induction n arbitrary: i)
  case 0
  then show ?case by simp
next
  case (Suc n)
  have "map (\<lambda>x. (word_of_int (drop_bit (8 * (n - 1 - x)) (drop_bit 8 i)) :: 8 word)) [0..<n]
      = map (\<lambda>x. word_of_int (drop_bit (8 * (n - x)) i)) [0..<n]"
  proof (rule map_cong)
    fix x assume "x \<in> set [0..<n]"
    then have e: "8 * (n - 1 - x) + 8 = 8 * (n - x)" by auto
    show "(word_of_int (drop_bit (8 * (n - 1 - x)) (drop_bit 8 i)) :: 8 word)
             = word_of_int (drop_bit (8 * (n - x)) i)"
      by (simp only: drop_bit_drop_bit e)
  qed simp
  with Suc show ?case by simp
qed

lemma to_octets_value: "to_octets i n = Inr (be_bytes (nat n) i)"
proof -
  have "to_octets_loop i n (py_range n) []
      = Inr (map (\<lambda>x. take_bit 8 (drop_bit (nat (8 * n - 8 * x - 8)) i)) (py_range n))"
    by (subst to_octets_loop_value) (auto simp: py_range_def)
  moreover have "map (\<lambda>x. (word_of_int (drop_bit (nat (8 * n - 8 * x - 8)) i) :: 8 word)) (py_range n)
      = be_bytes (nat n) i"
    unfolding be_bytes_map py_range_def map_map
    by (rule map_cong) (auto simp: o_def intro!: arg_cong2[where f=drop_bit] arg_cong[where f=word_of_int])
  ultimately show ?thesis
    by (simp add: to_octets_def bytes_of_ints_take_bit)
qed

lemma to_integer_loop_be:
  "to_integer_loop (map uint bs) 8 (int (length bs) - 1) i = Inr (i + be_int bs)"
  by (induction bs arbitrary: i) (simp_all add: lshift_def nat_mult_distrib algebra_simps)

lemma to_integer_value: "to_integer (map uint bs) 8 = Inr (be_int bs)"
  by (simp add: to_integer_def to_integer_loop_be [where i = 0, simplified])

lemma be_int_snoc: "be_int (bs @ [b]) = push_bit 8 (be_int bs) + uint b"
  by (induction bs) (simp_all add: push_bit_add push_bit_push_bit algebra_simps)

lemma be_bytes_be_int: "be_bytes (length bs) (be_int bs) = bs"
proof (induction bs rule: rev_induct)
  case Nil
  then show ?case by simp
next
  case (snoc b bs)
  have "drop_bit 8 (push_bit 8 (be_int bs) + uint b) = be_int bs"
    using uint_lt2p [of b] uint_ge_0 [of b]
    by (simp add: drop_bit_eq_div push_bit_eq_mult)
  moreover have "(word_of_int (push_bit 8 (be_int bs) + uint b) :: 8 word) = word_of_int (uint b)"
    unfolding word_of_int_eq_iff by (simp add: push_bit_eq_mult take_bit_eq_mod)
  ultimately show ?case
    using snoc.IH by (simp add: be_int_snoc)
qed

lemma to_integer_le_pair:
  "to_integer_le [] 8 = Inr 0" "to_integer_le [a] 8 = Inr a"
  "to_integer_le [a, b] 8 = Inr (a + push_bit 8 b)"
  by (simp_all add: to_integer_le_def lshift_def)

lemma wsum_split: "wsum bs = wsum (take 2 bs) + wsum (drop 2 bs)"
  by (induction bs rule: wsum.induct) simp_all

lemma sum_words_value:
  "0 \<le> k \<Longrightarrow>
   sum_words octets (range_step k (int (length octets)) 2) s = Inr (s + wsum (drop (nat k) octets))"
proof (induction "length octets - nat k" arbitrary: k s rule: less_induct)
  case less
  show ?case
  proof (cases "k < int (length octets)")
    case False
    then show ?thesis using less.prems by (simp add: range_step.simps)
  next
    case True
    have sl: "slice octets k (k + 2) = take 2 (drop (nat k) octets)"
    proof (cases "k + 2 \<le> int (length octets)")
      case True
      then have "nat (k + 2) - nat k = 2" using less.prems by simp
      then show ?thesis
        using True less.prems \<open>k < int (length octets)\<close>
        by (simp add: slice_def clamp_index_def min_def drop_take)
    next
      case False
      then show ?thesis
        using less.prems \<open>k < int (length octets)\<close>
        by (simp add: slice_def clamp_index_def min_def)
    qed
    have w: "to_integer_le (map uint (take 2 (drop (nat k) octets))) 8
           = Inr (wsum (take 2 (drop (nat k) octets)))"
      by (cases "drop (nat k) octets" rule: wsum.cases) (simp_all add: to_integer_le_pair)
    have "sum_words octets (range_step (k + 2) (int (length octets)) 2) (s + wsum (take 2 (drop (nat k) octets)))
        = Inr (s + wsum (take 2 (drop (nat k) octets)) + wsum (drop (nat (k + 2)) octets))"
      using True less.prems by (intro less.hyps) auto
    moreover have "drop (nat (k + 2)) octets = drop 2 (drop (nat k) octets)"
      using less.prems by (simp add: nat_add_distrib add.commute)
    ultimately show ?thesis
      using True wsum_split [of "drop (nat k) octets"]
      by (subst range_step.simps) (simp add: sl w)
  qed
qed

lemma wsum_pad: "odd (length bs) \<Longrightarrow> wsum (bs @ [0]) = wsum bs"
  by (induction bs rule: wsum.induct) simp_all

lemma checksum_value: "checksum bs = Inr (ck (wsum bs))"
proof (cases "odd (length bs)")
  case True
  then have "length bs mod 2 = 1" by presburger
  then show ?thesis
    using sum_words_value [of 0 "bs @ [0]" 0] wsum_pad [OF True]
    by (simp add: checksum_def ck_def Let_def)
next
  case False
  then have "length bs mod 2 \<noteq> 1" by presburger
  then show ?thesis
    using sum_words_value [of 0 bs 0]
    by (simp add: checksum_def ck_def Let_def)
qed

lemma and_ffff: "(x::int) AND 0xffff = x mod 65536"
  using take_bit_eq_mask [of 16 x] by (simp add: mask_eq_exp_minus_1 take_bit_eq_mod)

lemma and_ff: "(x::int) AND 0xff = x mod 256"
  using take_bit_eq_mask [of 8 x] by (simp add: mask_eq_exp_minus_1 take_bit_eq_mod)

lemma wsum_spec: "wsum bs = sum_list (spec_le_words bs)"
  by (induction bs rule: wsum.induct) (simp_all add: push_bit_eq_mult)

lemma swap_bits:
  "((drop_bit 8 (n::int) AND 0xff) OR push_bit 8 n) AND 0xffff
   = push_bit 8 (take_bit 8 n) + take_bit 8 (drop_bit 8 n)"
proof -
  have m: "(0xff::int) = mask 8" "(0xffff::int) = mask 16"
    by (simp_all add: mask_eq_exp_minus_1)
  have "push_bit 8 (take_bit 8 n) + take_bit 8 (drop_bit 8 n)
      = push_bit 8 (take_bit 8 n) OR take_bit 8 (drop_bit 8 n)"
    by (rule disjunctive_add) (auto simp: bit_simps)
  also have "\<dots> = ((drop_bit 8 n AND mask 8) OR push_bit 8 n) AND mask 16"
    by (rule bit_eqI) (auto simp: bit_simps)
  finally show ?thesis by (simp add: m)
qed

lemma ck_arith: "ck s = spec_swap16 (spec_complement16 (fold_carry (fold_carry s)))"
proof -
  define s1 where "s1 = fold_carry s"
  define n where "n = NOT (s1 + drop_bit 16 s1)"
  have "take_bit 16 n = mask 16 - take_bit 16 (s1 + drop_bit 16 s1)"
    by (simp add: n_def take_bit_not_eq_mask_diff)
  also have "take_bit 16 (s1 + drop_bit 16 s1) = fold_carry s1 mod 65536"
    by (simp add: take_bit_eq_mod drop_bit_eq_div fold_carry_def mod_simps add.commute)
  finally have c: "n mod 65536 = spec_complement16 (fold_carry s1)"
    by (simp add: spec_complement16_def take_bit_eq_mod mask_eq_exp_minus_1)
  have e: "drop_bit 16 s + (s AND 0xffff) = s1"
    by (simp add: s1_def fold_carry_def and_ffff drop_bit_eq_div)
  have "ck s = ((drop_bit 8 n AND 0xff) OR push_bit 8 n) AND 0xffff"
    unfolding ck_def Let_def e n_def ..
  also have "\<dots> = push_bit 8 (take_bit 8 n) + take_bit 8 (drop_bit 8 n)"
    by (rule swap_bits)
  also have "\<dots> = spec_swap16 (n mod 65536)"
    using drop_bit_take_bit [of 8 16 n]
    by (simp add: spec_swap16_def push_bit_eq_mult take_bit_eq_mod drop_bit_eq_div mod_mod_cancel div_mod_decomp_int)
  finally show ?thesis by (simp add: c s1_def)
qed

lemma ck_bounds: "0 \<le> ck s \<and> ck s < 65536"
proof -
  have "ck s = take_bit 16 (ck s)"
    by (simp add: ck_def Let_def take_bit_eq_mask mask_eq_exp_minus_1)
  then show ?thesis
    using take_bit_int_less_exp [of 16 "ck s"] take_bit_nonnegative [of 16 "ck s"] by simp
qed

lemma spec_sum: "sum_list (spec_le_words (spec_pad bs)) = wsum bs"
  by (simp add: spec_pad_def wsum_spec [symmetric] wsum_pad)

lemma wsum_nonneg: "0 \<le> wsum bs"
  by (induction bs rule: wsum.induct) simp_all

lemma wsum_bound: "wsum bs \<le> 65535 * int ((length bs + 1) div 2)"
proof (induction bs rule: wsum.induct)
  case (1 a b r)
  have "uint a \<le> 255" "uint b \<le> 255"
    using uint_lt2p [of a] uint_lt2p [of b] by simp_all
  with 1 show ?case by (simp add: push_bit_eq_mult)
next
  case (2 a)
  have "uint a \<le> 255" using uint_lt2p [of a] by simp
  then show ?case by simp
qed simp

lemma wsum_replicate_ff: "wsum (replicate (2 * n) 0xff @ r) = 65535 * int n + wsum r"
  by (induction n) (simp_all add: push_bit_eq_mult)

lemma spec_fold_carry:
  assumes "0 \<le> s" and "s < 4294967296"
  shows "spec_fold s = fold_carry s"
proof -
  have "0 \<le> s div 65536" using assms(1) by (simp add: pos_imp_zdiv_nonneg_iff)
  moreover have "s div 65536 < 65536" using assms(2) by (simp add: div_less_iff_less_mult)
  ultimately have "(s div 65536) mod 65536 = s div 65536" by simp
  then show ?thesis by (simp add: spec_fold_def fold_carry_def)
qed

lemma fold_carry_range:
  assumes "0 \<le> s" and "s < 4294967296"
  shows "0 \<le> fold_carry s" and "fold_carry s < 4294967296"
proof -
  have a: "0 \<le> s div 65536" "s div 65536 < 65536"
    using assms by (simp_all add: pos_imp_zdiv_nonneg_iff div_less_iff_less_mult)
  have b: "0 \<le> s mod 65536" "s mod 65536 < 65536" by simp_all
  from a b show "0 \<le> fold_carry s" "fold_carry s < 4294967296"
    unfolding fold_carry_def by linarith+
qed

lemma spec_fold_twice:
  assumes "0 \<le> s" and "s < 4294967296"
  shows "spec_fold (spec_fold s) = fold_carry (fold_carry s)"
  using assms by (simp add: spec_fold_carry fold_carry_range)

lemma wsum_below_2_32: "length bs \<le> 131074 \<Longrightarrow> wsum bs < 4294967296"
proof -
  assume "length bs \<le> 131074"
  then have "int ((length bs + 1) div 2) \<le> 65537" by simp
  then have "65535 * int ((length bs + 1) div 2) \<le> 65535 * 65537" by simp
  with wsum_bound [of bs] show ?thesis by simp
qed

section \<open>The checksum engine\<close>

text \<open>
  Claim C4, as stated: for every byte buffer \<^verbatim>\<open>checksum\<close> equals the worded algorithm, whose
  fold adds the upper 16 bits of the sum into the lower 16 bits. The code adds all bits
  above the lower 16, \<^verbatim>\<open>s >> 16\<close>, which is more than 16 bits once the sum reaches \<open>2 ^ 32\<close>:
  on the buffer of 131080 bytes below, with word sum \<open>2 ^ 32 + 65535\<close>, the code returns
  \<^verbatim>\<open>0xffff\<close> and the worded algorithm 0.
\<close>

theorem checksum_refines_spec_counterexample:
  "length big_buffer = 131080 \<and> checksum big_buffer = Inr 0xffff \<and> checksum_spec big_buffer = 0"
proof -
  have r: "replicate 131074 (0xff :: 8 word) = replicate (2 * 65537) 0xff" by simp
  have s: "wsum big_buffer = 4295032831"
    unfolding r wsum_replicate_ff by (simp add: push_bit_eq_mult)
  have "checksum big_buffer = Inr 0xffff"
    unfolding checksum_value s
    by (simp add: ck_arith fold_carry_def spec_complement16_def spec_swap16_def)
  moreover have "checksum_spec big_buffer = 0"
    unfolding checksum_spec_def spec_sum s
    by (simp add: spec_fold_def spec_complement16_def spec_swap16_def)
  ultimately show ?thesis by simp
qed

text \<open>
  Claim C4, amended. For every byte buffer \<^verbatim>\<open>checksum\<close> returns (it never raises) a value
  that fits in 16 bits, and for every byte buffer of at most 131074 bytes (65537 words, a
  word sum below \<open>2 ^ 32\<close>) that value is the result of the algorithm as the specification
  words it: pad with one zero byte if the length is odd, sum the buffer as consecutive
  16-bit little-endian words, fold the upper 16 bits into the lower 16 bits and fold once
  more, take the one's complement of the 16-bit result, swap its high and low bytes.
\<close>

theorem checksum_refines_spec:
  "(\<exists>c. checksum bs = Inr c \<and> 0 \<le> c \<and> c < 65536) \<and>
   (length bs \<le> 131074 \<longrightarrow> checksum bs = Inr (checksum_spec bs))"
proof (intro conjI impI)
  show "\<exists>c. checksum bs = Inr c \<and> 0 \<le> c \<and> c < 65536"
    using ck_bounds [of "wsum bs"] by (simp add: checksum_value)
next
  assume "length bs \<le> 131074"
  then have "wsum bs < 4294967296" by (rule wsum_below_2_32)
  then have "spec_fold (spec_fold (wsum bs)) = fold_carry (fold_carry (wsum bs))"
    using wsum_nonneg [of bs] by (intro spec_fold_twice)
  then show "checksum bs = Inr (checksum_spec bs)"
    by (simp add: checksum_value checksum_spec_def spec_sum ck_arith)
qed

theorem checksum_refines_spec_witness:
  "checksum [0x45, 0, 0, 0x28, 0, 0, 0, 0, 0x40, 6, 0, 0, 10, 0, 0, 1, 10, 0, 0, 2] = Inr 0x66ce
   \<and> checksum [0, 0, 0, 0, 0, 0, 0, 0, 0, 0, 0, 0, 0, 0, 0, 0, 0, 0, 0, 0] = Inr 0xffff
   \<and> checksum [1, 2, 3] = Inr 0xfbfd"
  using checksum_refines_spec [of "[0x45, 0, 0, 0x28, 0, 0, 0, 0, 0x40, 6, 0, 0, 10, 0, 0, 1, 10, 0, 0, 2]"]
    checksum_refines_spec [of "[0, 0, 0, 0, 0, 0, 0, 0, 0, 0, 0, 0, 0, 0, 0, 0, 0, 0, 0, 0]"]
    checksum_refines_spec [of "[1, 2, 3]"]
  by (simp add: checksum_spec_def spec_pad_def spec_fold_def spec_complement16_def spec_swap16_def)

section \<open>What decoding computes\<close>

lemma getitem_nonneg:
  "0 \<le> k \<Longrightarrow> getitem octets k =
     (if nat k < length octets then Inr (uint (octets ! nat k)) else Inl (IndexError ''index out of range''))"
  by (auto simp: getitem_def Let_def)

lemma TCPPacket_init_value:
  "TCPPacket_init octets =
     (if length octets < 14 then Inl (IndexError ''index out of range'')
      else Inr (TCPPacket_fields octets))"
  by (simp add: TCPPacket_init_def TCPPacket_fields_def getitem_nonneg to_bits_value
      to_integer_value Let_def)

lemma IPv4Packet_init_value:
  "IPv4Packet_init octets =
     (if length octets = 0 then Inl (IndexError ''index out of range'')
      else if take_bit 4 (drop_bit 4 (uint (octets ! 0))) \<noteq> 4 then Inl (ValueError ''non-ipv4 packet'')
      else if length octets < 10 then Inl (IndexError ''index out of range'')
      else if uint (octets ! 9) \<noteq> 6 then Inl (ValueError ''non-tcp packet'')
      else ebind (TCPPacket_init (slice_from octets (20 + 4 * (take_bit 4 (uint (octets ! 0)) - 5))))
             (\<lambda>payload. Inr (IPv4Packet_fields octets payload)))"
  by (simp add: IPv4Packet_init_def IPv4Packet_fields_def getitem_nonneg to_bits_value
      to_integer_value Let_def)

lemma EthernetFrame_init_value:
  "EthernetFrame_init octets =
     (if length octets < 14 then Inl (IndexError ''index out of range'')
      else if push_bit 8 (uint (octets ! 12)) + uint (octets ! 13) \<noteq> 0x0800
        then Inl (ValueError ''non-ipv4 packet'')
      else ebind (IPv4Packet_init (slice_from octets 14))
       (\<lambda>payload. Inr \<lparr>eth_raw = octets,
          eth_dest_address = MACAddress_init (slice octets 0 6),
          eth_source_address = MACAddress_init (slice octets 6 12),
          eth_ethertype = push_bit 8 (uint (octets ! 12)) + uint (octets ! 13),
          eth_payload = payload\<rparr>))"
  by (simp add: EthernetFrame_init_def getitem_nonneg Let_def)

lemma slice_nonneg:
  "0 \<le> a \<Longrightarrow> 0 \<le> b \<Longrightarrow> slice xs a b = drop (nat a) (take (nat b) xs)"
  by (auto simp: slice_def clamp_index_def min_def)

lemma slice_from_nonneg: "0 \<le> a \<Longrightarrow> slice_from xs a = drop (nat a) xs"
  by (auto simp: slice_from_def clamp_index_def min_def)

lemma length_slice:
  "0 \<le> a \<Longrightarrow> a \<le> b \<Longrightarrow> nat b \<le> length xs \<Longrightarrow> length (slice xs a b) = nat (b - a)"
  by (simp add: slice_nonneg nat_diff_distrib)

section \<open>What serialisation computes\<close>

lemma split_field:
  "push_bit k (take_bit m (drop_bit k u)) + take_bit k u = take_bit (m + k) (u::int)"
proof -
  have "take_bit m (drop_bit k u) = drop_bit k (take_bit (m + k) u)"
    by (simp add: drop_bit_take_bit)
  moreover have "take_bit k u = take_bit k (take_bit (m + k) u)"
    by (simp add: take_bit_take_bit)
  ultimately show ?thesis
    using bits_ident [of k "take_bit (m + k) u"] by simp
qed

lemma take_bit_uint8 [simp]: "take_bit 8 (uint (b :: 8 word)) = uint b"
  by (simp add: take_bit_int_eq_self uint_lt2p [where 'a = 8, simplified])

lemma py_int_bool_bit [simp]: "py_int (py_bool (take_bit 1 y)) = take_bit 1 y"
  by (cases "even y") (simp_all add: py_int_def py_bool_def take_bit_Suc_0 [simplified] take_bit_eq_mod)

lemma be_int_bounds: "0 \<le> be_int bs" "be_int bs < 2 ^ (8 * length bs)"
proof -
  show "0 \<le> be_int bs" by (induction bs) simp_all
  show "be_int bs < 2 ^ (8 * length bs)"
  proof (induction bs rule: rev_induct)
    case Nil
    then show ?case by simp
  next
    case (snoc b bs)
    have "uint b < 256" using uint_lt2p [of b] by simp
    moreover have "be_int bs + 1 \<le> 2 ^ (8 * length bs)" using snoc by simp
    then have "256 * (be_int bs + 1) \<le> 256 * 2 ^ (8 * length bs)"
      by (rule mult_left_mono) simp
    ultimately show ?case
      by (simp add: be_int_snoc push_bit_eq_mult power_add algebra_simps)
  qed
qed

lemma be_bytes_1 [simp]: "be_bytes (Suc 0) x = [word_of_int x]"
  by simp

lemma bytes_of_ints_uint [simp]: "bytes_of_ints (map uint (bs :: bytes)) = Inr bs"
  using uint_lt2p [where 'a = 8]
  by (simp add: bytes_of_ints_def list_all_iff o_def map_idI)

lemma drop_take_append:
  assumes "a \<le> b" "b \<le> c"
  shows "drop a (take b xs) @ drop b (take c xs) = drop a (take c xs)"
proof -
  have e: "take b (take c xs) = take b xs"
    using assms(2) by (simp add: min_def)
  have r: "drop (a - length (take b xs)) (drop b (take c xs)) = drop b (take c xs)"
  proof (cases "b \<le> length xs")
    case True
    then show ?thesis using assms(1) by (simp add: min_def)
  next
    case False
    then have "drop b (take c xs) = []" by simp
    then show ?thesis by simp
  qed
  have "drop a (take c xs) = drop a (take b (take c xs) @ drop b (take c xs))"
    by (simp only: append_take_drop_id)
  also have "\<dots> = drop a (take b xs) @ drop (a - length (take b xs)) (drop b (take c xs))"
    by (simp only: e drop_append)
  finally show ?thesis by (simp only: r)
qed

lemma drop_take_append_drop:
  assumes "a \<le> b"
  shows "drop a (take b xs) @ drop b xs = drop a xs"
  using drop_take_append [OF assms, of "max b (length xs)" xs] by simp

lemma slice_append:
  "0 \<le> a \<Longrightarrow> a \<le> b \<Longrightarrow> b \<le> c \<Longrightarrow> slice xs a b @ slice xs b c = slice xs a c"
  by (simp add: slice_nonneg drop_take_append)

lemma slice_append_from:
  "0 \<le> a \<Longrightarrow> a \<le> b \<Longrightarrow> slice xs a b @ slice_from xs b = slice_from xs a"
  by (simp add: slice_nonneg slice_from_nonneg drop_take_append_drop)

lemma slice_single: "0 \<le> k \<Longrightarrow> nat k < length xs \<Longrightarrow> slice xs k (k + 1) = [xs ! nat k]"
  by (simp add: slice_nonneg nat_add_distrib drop_take take_Suc_conv_app_nth)

lemma be_bytes_slice:
  "0 \<le> a \<Longrightarrow> a \<le> b \<Longrightarrow> nat b \<le> length xs \<Longrightarrow> n = nat (b - a) \<Longrightarrow>
   be_bytes n (be_int (slice xs a b)) = slice xs a b"
  using be_bytes_be_int [of "slice xs a b"] by (simp add: length_slice)

lemma to_integer_flags:
  "to_integer [c7, c6, c5, c4, c3, c2, c1, c0] 1
   = Inr (push_bit 7 c7 + push_bit 6 c6 + push_bit 5 c5 + push_bit 4 c4 + push_bit 3 c3
          + push_bit 2 c2 + push_bit 1 c1 + c0)"
  by (simp add: to_integer_def lshift_def)

lemma to_integer_nibbles: "to_integer [a, b] 4 = Inr (push_bit 4 a + b)"
  by (simp add: to_integer_def lshift_def)

lemma TCPPacket_raw_header_value:
  "TCPPacket_raw_header t =
     Inr (be_bytes 2 (tcp_source_port t) @ be_bytes 2 (tcp_dest_port t)
        @ be_bytes 4 (tcp_sequence t) @ be_bytes 4 (tcp_ack_number t)
        @ [word_of_int (push_bit 4 (tcp_data_offset t) + push_bit 1 (tcp_reserved t)
                         + py_int (tcp_NS t))]
        @ [word_of_int (push_bit 7 (py_int (tcp_CWR t)) + push_bit 6 (py_int (tcp_ECE t))
             + push_bit 5 (py_int (tcp_URG t)) + push_bit 4 (py_int (tcp_ACK t))
             + push_bit 3 (py_int (tcp_PSH t)) + push_bit 2 (py_int (tcp_RST t))
             + push_bit 1 (py_int (tcp_SYN t)) + py_int (tcp_FIN t))]
        @ be_bytes 2 (tcp_window_size t) @ be_bytes 2 (tcp_checksum t)
        @ be_bytes 2 (tcp_urgent_pointer t)
        @ be_bytes (nat ((tcp_data_offset t - 5) * 4)) (tcp_options t))"
  by (simp add: TCPPacket_raw_header_def to_octets_value to_integer_flags)

lemma IPv4Packet_raw_header_value:
  "ip_address (ip_source_address p) = map uint src \<Longrightarrow>
   ip_address (ip_dest_address p) = map uint dst \<Longrightarrow>
   IPv4Packet_raw_header p =
     Inr ([word_of_int (push_bit 4 (ip_version p) + ip_ihl p)]
        @ [word_of_int (push_bit 2 (ip_dscp p) + ip_ecn p)]
        @ be_bytes 2 (ip_length p) @ be_bytes 2 (ip_identification p)
        @ be_bytes 2 (push_bit 13 (ip_flags p) + ip_fragment_offset p)
        @ [word_of_int (ip_ttl p)] @ [word_of_int (ip_protocol p)]
        @ be_bytes 2 (ip_checksum p) @ src @ dst
        @ be_bytes (nat ((ip_ihl p - 5) * 4)) (ip_options p))"
  by (simp add: IPv4Packet_raw_header_def to_octets_value to_integer_nibbles)

section \<open>Serialising a decoded packet\<close>

lemma split_field':
  "n = m + k \<Longrightarrow> push_bit k (take_bit m (drop_bit k u)) + take_bit k u = take_bit n (u::int)"
  by (simp add: split_field)

lemma byte_of_flags:
  "push_bit 7 (take_bit 1 (drop_bit 7 u)) + push_bit 6 (take_bit 1 (drop_bit 6 u))
      + push_bit 5 (take_bit 1 (drop_bit 5 u)) + push_bit 4 (take_bit 1 (drop_bit 4 u))
      + push_bit 3 (take_bit 1 (drop_bit 3 u)) + push_bit 2 (take_bit 1 (drop_bit 2 u))
      + push_bit 1 (take_bit 1 (drop_bit 1 u)) + take_bit 1 u = take_bit 8 (u::int)"
proof -
  have "push_bit 1 (take_bit 1 (drop_bit 1 u)) + take_bit 1 u = take_bit 2 u"
    by (rule split_field') simp
  moreover have "push_bit 2 (take_bit 1 (drop_bit 2 u)) + take_bit 2 u = take_bit 3 u"
    by (rule split_field') simp
  moreover have "push_bit 3 (take_bit 1 (drop_bit 3 u)) + take_bit 3 u = take_bit 4 u"
    by (rule split_field') simp
  moreover have "push_bit 4 (take_bit 1 (drop_bit 4 u)) + take_bit 4 u = take_bit 5 u"
    by (rule split_field') simp
  moreover have "push_bit 5 (take_bit 1 (drop_bit 5 u)) + take_bit 5 u = take_bit 6 u"
    by (rule split_field') simp
  moreover have "push_bit 6 (take_bit 1 (drop_bit 6 u)) + take_bit 6 u = take_bit 7 u"
    by (rule split_field') simp
  moreover have "push_bit 7 (take_bit 1 (drop_bit 7 u)) + take_bit 7 u = take_bit 8 u"
    by (rule split_field') simp
  ultimately show ?thesis by linarith
qed

lemma byte_of_offset_reserved_ns:
  "push_bit 4 (take_bit 4 (drop_bit 4 u)) + push_bit 1 (take_bit 3 (drop_bit 1 u)) + take_bit 1 u
   = take_bit 8 (u::int)"
proof -
  have "push_bit 1 (take_bit 3 (drop_bit 1 u)) + take_bit 1 u = take_bit 4 u"
    by (rule split_field') simp
  moreover have "push_bit 4 (take_bit 4 (drop_bit 4 u)) + take_bit 4 u = take_bit 8 u"
    by (rule split_field') simp
  ultimately show ?thesis by linarith
qed

lemma nibble_bounds: "0 \<le> take_bit 4 (x::int)" "take_bit 4 (x::int) \<le> 15"
  using take_bit_int_less_exp [of 4 x] by simp_all

lemma py_int_bool_mod2 [simp]: "py_int (py_bool (y mod 2)) = y mod 2"
  by (cases "even y") (simp_all add: py_int_def py_bool_def)

lemma TCPPacket_fields_byte12:
  "word_of_int (push_bit 4 (tcp_data_offset (TCPPacket_fields octets))
      + push_bit 1 (tcp_reserved (TCPPacket_fields octets))
      + py_int (tcp_NS (TCPPacket_fields octets))) = octets ! 12"
proof -
  define u where "u = uint (octets ! 12)"
  have a: "tcp_data_offset (TCPPacket_fields octets) = take_bit 4 (drop_bit 4 u)"
    and b: "tcp_reserved (TCPPacket_fields octets) = take_bit 3 (drop_bit 1 u)"
    and c: "py_int (tcp_NS (TCPPacket_fields octets)) = take_bit 1 u"
    by (simp_all add: TCPPacket_fields_def u_def)
  show ?thesis
    by (simp only: a b c byte_of_offset_reserved_ns u_def take_bit_uint8 word_of_int_uint)
qed

lemma TCPPacket_fields_byte13:
  "word_of_int (push_bit 7 (py_int (tcp_CWR (TCPPacket_fields octets)))
      + push_bit 6 (py_int (tcp_ECE (TCPPacket_fields octets)))
      + push_bit 5 (py_int (tcp_URG (TCPPacket_fields octets)))
      + push_bit 4 (py_int (tcp_ACK (TCPPacket_fields octets)))
      + push_bit 3 (py_int (tcp_PSH (TCPPacket_fields octets)))
      + push_bit 2 (py_int (tcp_RST (TCPPacket_fields octets)))
      + push_bit 1 (py_int (tcp_SYN (TCPPacket_fields octets)))
      + py_int (tcp_FIN (TCPPacket_fields octets))) = octets ! 13"
proof -
  define u where "u = uint (octets ! 13)"
  have f: "py_int (tcp_CWR (TCPPacket_fields octets)) = take_bit 1 (drop_bit 7 u)"
    "py_int (tcp_ECE (TCPPacket_fields octets)) = take_bit 1 (drop_bit 6 u)"
    "py_int (tcp_URG (TCPPacket_fields octets)) = take_bit 1 (drop_bit 5 u)"
    "py_int (tcp_ACK (TCPPacket_fields octets)) = take_bit 1 (drop_bit 4 u)"
    "py_int (tcp_PSH (TCPPacket_fields octets)) = take_bit 1 (drop_bit 3 u)"
    "py_int (tcp_RST (TCPPacket_fields octets)) = take_bit 1 (drop_bit 2 u)"
    "py_int (tcp_SYN (TCPPacket_fields octets)) = take_bit 1 (drop_bit 1 u)"
    "py_int (tcp_FIN (TCPPacket_fields octets)) = take_bit 1 u"
    by (simp_all add: TCPPacket_fields_def u_def)
  show ?thesis
    by (simp only: f byte_of_flags u_def take_bit_uint8 word_of_int_uint)
qed

lemma TCPPacket_fields_raw_header:
  "TCPPacket_raw_header (TCPPacket_fields octets) =
     Inr (be_bytes 2 (be_int (slice octets 0 2)) @ be_bytes 2 (be_int (slice octets 2 4))
        @ be_bytes 4 (be_int (slice octets 4 8)) @ be_bytes 4 (be_int (slice octets 8 12))
        @ [octets ! 12] @ [octets ! 13]
        @ be_bytes 2 (be_int (slice octets 14 16)) @ be_bytes 2 (be_int (slice octets 16 18))
        @ be_bytes 2 (be_int (slice octets 18 20))
        @ be_bytes (nat ((tcp_data_offset (TCPPacket_fields octets) - 5) * 4))
            (be_int (slice octets 20 (20 + 4 * (tcp_data_offset (TCPPacket_fields octets) - 5)))))"
proof -
  have sel: "tcp_source_port (TCPPacket_fields octets) = be_int (slice octets 0 2)"
    "tcp_dest_port (TCPPacket_fields octets) = be_int (slice octets 2 4)"
    "tcp_sequence (TCPPacket_fields octets) = be_int (slice octets 4 8)"
    "tcp_ack_number (TCPPacket_fields octets) = be_int (slice octets 8 12)"
    "tcp_window_size (TCPPacket_fields octets) = be_int (slice octets 14 16)"
    "tcp_checksum (TCPPacket_fields octets) = be_int (slice octets 16 18)"
    "tcp_urgent_pointer (TCPPacket_fields octets) = be_int (slice octets 18 20)"
    "tcp_options (TCPPacket_fields octets)
       = be_int (slice octets 20 (20 + 4 * (tcp_data_offset (TCPPacket_fields octets) - 5)))"
    by (simp_all add: TCPPacket_fields_def)
  show ?thesis
    by (simp only: TCPPacket_raw_header_value TCPPacket_fields_byte12 TCPPacket_fields_byte13 sel)
qed

lemma TCPPacket_roundtrip:
  assumes "TCPPacket_init octets = Inr t" and "5 \<le> tcp_data_offset t"
    and "4 * tcp_data_offset t \<le> int (length octets)"
  shows "TCPPacket_raw t = Inr octets"
proof -
  define d where "d = tcp_data_offset (TCPPacket_fields octets)"
  from assms(1) have t: "t = TCPPacket_fields octets"
    by (simp add: TCPPacket_init_value split: if_splits)
  have len: "20 \<le> length octets" "nat (20 + 4 * (d - 5)) \<le> length octets" "5 \<le> d"
    using assms(2,3) by (simp_all add: d_def t)
  have p: "tcp_payload t = slice_from octets (20 + 4 * (d - 5))"
    by (simp add: t d_def TCPPacket_fields_def)
  have h: "TCPPacket_raw_header t =
      Inr (slice octets 0 2 @ slice octets 2 4 @ slice octets 4 8 @ slice octets 8 12
         @ slice octets 12 13 @ slice octets 13 14 @ slice octets 14 16 @ slice octets 16 18
         @ slice octets 18 20 @ slice octets 20 (20 + 4 * (d - 5)))"
    using len
    by (simp add: t TCPPacket_fields_raw_header d_def [symmetric] be_bytes_slice
        slice_single [of 12, simplified] slice_single [of 13, simplified])
  have "slice octets 0 2 @ slice octets 2 4 @ slice octets 4 8 @ slice octets 8 12
         @ slice octets 12 13 @ slice octets 13 14 @ slice octets 14 16 @ slice octets 16 18
         @ slice octets 18 20 @ slice octets 20 (20 + 4 * (d - 5)) @ slice_from octets (20 + 4 * (d - 5))
      = slice_from octets 0"
    using len(3) by (simp add: slice_append_from slice_append)
  then show ?thesis
    using h by (simp add: TCPPacket_raw_def p slice_from_nonneg)
qed

lemma TCPPacket_init_Inr:
  assumes "TCPPacket_init octets = Inr t"
  shows "t = TCPPacket_fields octets" and "14 \<le> length octets"
  using assms by (simp_all add: TCPPacket_init_value split: if_splits)

lemma ip_ihl_fields [simp]:
  "ip_ihl (IPv4Packet_fields octets t) = take_bit 4 (uint (octets ! 0))"
  by (simp add: IPv4Packet_fields_def)

lemma ip_payload_fields [simp]: "ip_payload (IPv4Packet_fields octets t) = t"
  by (simp add: IPv4Packet_fields_def)

lemma IPv4Packet_init_Inr:
  assumes "IPv4Packet_init octets = Inr p"
  shows "\<exists>t. TCPPacket_init (slice_from octets (20 + 4 * (ip_ihl p - 5))) = Inr t \<and>
             p = IPv4Packet_fields octets t"
    and "10 \<le> length octets" and "uint (octets ! 9) = 6"
    and "take_bit 4 (drop_bit 4 (uint (octets ! 0))) = 4"
proof -
  from assms have c: "10 \<le> length octets" "uint (octets ! 9) = 6"
    "take_bit 4 (drop_bit 4 (uint (octets ! 0))) = 4"
    by (simp_all add: IPv4Packet_init_value split: if_splits)
  from assms obtain t
    where "TCPPacket_init (slice_from octets (20 + 4 * (take_bit 4 (uint (octets ! 0)) - 5))) = Inr t"
      and "p = IPv4Packet_fields octets t"
    by (auto simp: IPv4Packet_init_value ebind_def split: if_splits sum.splits)
  then show "\<exists>t. TCPPacket_init (slice_from octets (20 + 4 * (ip_ihl p - 5))) = Inr t \<and>
             p = IPv4Packet_fields octets t"
    by simp
  from c show "10 \<le> length octets" "uint (octets ! 9) = 6"
    "take_bit 4 (drop_bit 4 (uint (octets ! 0))) = 4" .
qed

lemma EthernetFrame_init_Inr:
  assumes "EthernetFrame_init octets = Inr f"
  shows "IPv4Packet_init (slice_from octets 14) = Inr (eth_payload f)"
    and "14 \<le> length octets"
    and "eth_dest_address f = MACAddress_init (slice octets 0 6)"
    and "eth_source_address f = MACAddress_init (slice octets 6 12)"
    and "eth_ethertype f = push_bit 8 (uint (octets ! 12)) + uint (octets ! 13)"
    and "eth_raw f = octets"
  using assms by (auto simp: EthernetFrame_init_value ebind_def split: if_splits sum.splits)

lemma IPv4Packet_fields_byte0:
  "word_of_int (push_bit 4 (ip_version (IPv4Packet_fields octets t))
      + ip_ihl (IPv4Packet_fields octets t)) = octets ! 0"
proof -
  define u where "u = uint (octets ! 0)"
  have a: "ip_version (IPv4Packet_fields octets t) = take_bit 4 (drop_bit 4 u)"
    and b: "ip_ihl (IPv4Packet_fields octets t) = take_bit 4 u"
    by (simp_all add: IPv4Packet_fields_def u_def)
  have "push_bit 4 (take_bit 4 (drop_bit 4 u)) + take_bit 4 u = take_bit 8 u"
    by (rule split_field') simp
  then show ?thesis
    by (simp only: a b u_def take_bit_uint8 word_of_int_uint)
qed

lemma IPv4Packet_fields_byte1:
  "word_of_int (push_bit 2 (ip_dscp (IPv4Packet_fields octets t))
      + ip_ecn (IPv4Packet_fields octets t)) = octets ! 1"
proof -
  define u where "u = uint (octets ! 1)"
  have a: "ip_dscp (IPv4Packet_fields octets t) = take_bit 6 (drop_bit 2 u)"
    and b: "ip_ecn (IPv4Packet_fields octets t) = take_bit 2 u"
    by (simp_all add: IPv4Packet_fields_def u_def)
  have "push_bit 2 (take_bit 6 (drop_bit 2 u)) + take_bit 2 u = take_bit 8 u"
    by (rule split_field') simp
  then show ?thesis
    by (simp only: a b u_def take_bit_uint8 word_of_int_uint)
qed

lemma IPv4Packet_fields_flags_fragment:
  "push_bit 13 (ip_flags (IPv4Packet_fields octets t)) + ip_fragment_offset (IPv4Packet_fields octets t)
   = be_int (slice octets 6 8)"
proof -
  define v where "v = be_int (slice octets 6 8)"
  have a: "ip_flags (IPv4Packet_fields octets t) = take_bit 3 (drop_bit 13 v)"
    and b: "ip_fragment_offset (IPv4Packet_fields octets t) = take_bit 13 v"
    by (simp_all add: IPv4Packet_fields_def v_def)
  have "length (slice octets 6 8) \<le> 2" by (simp add: slice_nonneg)
  then have "(2::int) ^ (8 * length (slice octets 6 8)) \<le> 2 ^ 16"
    by (intro power_increasing) simp_all
  then have "v < 2 ^ 16" "0 \<le> v"
    using be_int_bounds [of "slice octets 6 8"] by (simp_all add: v_def)
  then have "take_bit 16 v = v" by (simp add: take_bit_int_eq_self)
  moreover have "push_bit 13 (take_bit 3 (drop_bit 13 v)) + take_bit 13 v = take_bit 16 v"
    by (rule split_field') simp
  ultimately show ?thesis by (simp only: a b v_def)
qed

lemma IPv4Packet_fields_raw_header:
  "IPv4Packet_raw_header (IPv4Packet_fields octets t) =
     Inr ([octets ! 0] @ [octets ! 1]
        @ be_bytes 2 (be_int (slice octets 2 4)) @ be_bytes 2 (be_int (slice octets 4 6))
        @ be_bytes 2 (be_int (slice octets 6 8))
        @ [octets ! 8] @ [octets ! 9]
        @ be_bytes 2 (be_int (slice octets 10 12))
        @ slice octets 12 16 @ slice octets 16 20
        @ be_bytes (nat ((ip_ihl (IPv4Packet_fields octets t) - 5) * 4))
            (be_int (slice octets 20 (20 + 4 * (ip_ihl (IPv4Packet_fields octets t) - 5)))))"
proof -
  have sel: "ip_length (IPv4Packet_fields octets t) = be_int (slice octets 2 4)"
    "ip_identification (IPv4Packet_fields octets t) = be_int (slice octets 4 6)"
    "ip_ttl (IPv4Packet_fields octets t) = uint (octets ! 8)"
    "ip_protocol (IPv4Packet_fields octets t) = uint (octets ! 9)"
    "ip_checksum (IPv4Packet_fields octets t) = be_int (slice octets 10 12)"
    "ip_options (IPv4Packet_fields octets t)
       = be_int (slice octets 20 (20 + 4 * (ip_ihl (IPv4Packet_fields octets t) - 5)))"
    by (simp_all add: IPv4Packet_fields_def)
  have adr: "ip_address (ip_source_address (IPv4Packet_fields octets t)) = map uint (slice octets 12 16)"
    "ip_address (ip_dest_address (IPv4Packet_fields octets t)) = map uint (slice octets 16 20)"
    by (simp_all add: IPv4Packet_fields_def IPv4Address_init_def)
  show ?thesis
    by (simp only: IPv4Packet_raw_header_value [OF adr] IPv4Packet_fields_byte0
        IPv4Packet_fields_byte1 IPv4Packet_fields_flags_fragment sel word_of_int_uint)
qed

lemma IPv4Packet_roundtrip:
  assumes "IPv4Packet_init octets = Inr p" and "5 \<le> ip_ihl p"
    and "5 \<le> tcp_data_offset (ip_payload p)"
    and "4 * ip_ihl p + 4 * tcp_data_offset (ip_payload p) \<le> int (length octets)"
  shows "IPv4Packet_raw p = Inr octets"
proof -
  define i where "i = take_bit 4 (uint (octets ! 0))"
  from IPv4Packet_init_Inr(1) [OF assms(1)] obtain t
    where t: "TCPPacket_init (slice_from octets (20 + 4 * (i - 5))) = Inr t"
      and p: "p = IPv4Packet_fields octets t"
    by (auto simp: i_def)
  have i: "ip_ihl p = i" by (simp add: i_def p)
  have ti: "5 \<le> tcp_data_offset t" "4 * i + 4 * tcp_data_offset t \<le> int (length octets)"
    using assms(3,4) by (simp_all add: p i_def)
  have len: "5 \<le> i" "20 \<le> length octets" "nat (20 + 4 * (i - 5)) \<le> length octets"
    "octets \<noteq> []"
    using assms(2) ti by (auto simp: i)
  have "length (slice_from octets (20 + 4 * (i - 5))) = length octets - nat (4 * i)"
    using len by (simp add: slice_from_nonneg)
  then have "4 * tcp_data_offset t \<le> int (length (slice_from octets (20 + 4 * (i - 5))))"
    using ti len by simp
  with t ti have r: "TCPPacket_raw t = Inr (slice_from octets (20 + 4 * (i - 5)))"
    by (intro TCPPacket_roundtrip)
  have h: "IPv4Packet_raw_header p =
      Inr (slice octets 0 1 @ slice octets 1 2 @ slice octets 2 4 @ slice octets 4 6
         @ slice octets 6 8 @ slice octets 8 9 @ slice octets 9 10 @ slice octets 10 12
         @ slice octets 12 16 @ slice octets 16 20 @ slice octets 20 (20 + 4 * (i - 5)))"
    using len
    by (simp add: p IPv4Packet_fields_raw_header i_def [symmetric] be_bytes_slice
        slice_single [of 0, simplified] slice_single [of 1, simplified]
        slice_single [of 8, simplified] slice_single [of 9, simplified])
  have "slice octets 0 1 @ slice octets 1 2 @ slice octets 2 4 @ slice octets 4 6
         @ slice octets 6 8 @ slice octets 8 9 @ slice octets 9 10 @ slice octets 10 12
         @ slice octets 12 16 @ slice octets 16 20 @ slice octets 20 (20 + 4 * (i - 5))
         @ slice_from octets (20 + 4 * (i - 5))
      = slice_from octets 0"
    using len(1) by (simp add: slice_append_from slice_append)
  then show ?thesis
    using h r by (simp add: IPv4Packet_raw_def p slice_from_nonneg)
qed

lemma sample_decodes: "\<exists>f. EthernetFrame_init sample_frame = Inr f"
  by (simp add: EthernetFrame_init_value IPv4Packet_init_value TCPPacket_init_value
      slice_from_nonneg)

lemma sample_frame_decoded: "EthernetFrame_init sample_frame = Inr sample_decoded"
  by code_simp

lemma sample_ip_decoded: "IPv4Packet_init (drop 14 sample_frame) = Inr sample_ip"
  by code_simp

lemma be_bytes_2_pair: "be_bytes 2 (push_bit 8 (uint a) + uint b) = [a, b]"
proof -
  have e: "be_int [a, b] = push_bit 8 (uint a) + uint b" by simp
  have l: "length [a, b] = 2" by simp
  from be_bytes_be_int [of "[a, b]"] show ?thesis unfolding e l .
qed

section \<open>Round trip\<close>

text \<open>
  Claim C1, as stated: every buffer that passes the three protocol checks and is long
  enough for the lengths its own header fields declare is returned unchanged by decoding
  followed by \<^verbatim>\<open>raw()\<close>. Decoding does not check the header lengths: with a data offset of 4
  the options are empty and the payload starts at byte 16 of the segment, while
  \<^verbatim>\<open>raw_header\<close> always writes the 20 fixed bytes, so bytes 16 to 19 of the segment are
  written twice and the result is 4 bytes longer than the input.
\<close>

theorem frame_roundtrip_counterexample:
  "ebind (EthernetFrame_init short_offset_frame)
     (\<lambda>f. Inr (ip_ihl (eth_payload f), tcp_data_offset (ip_payload (eth_payload f)),
               ip_length (eth_payload f))) = Inr (5, 4, 44) \<and>
   length short_offset_frame = 58 \<and>
   ebind (EthernetFrame_init short_offset_frame) EthernetFrame_raw =
     Inr (take 54 short_offset_frame @ [0xab, 0xcd, 0x00, 0x00, 0x68, 0x69, 0x21, 0x0a]) \<and>
   ebind (EthernetFrame_init short_offset_frame) EthernetFrame_raw \<noteq> Inr short_offset_frame"
  by code_simp

text \<open>
  Claim C1, amended. For every buffer that decodes (it passes the three protocol checks),
  whose IHL and TCP data offset are both at least 5 and which is long enough for the two
  header lengths they declare, \<^verbatim>\<open>raw()\<close> on the decoded frame returns the input buffer.
  Decoding is a function of the buffer alone; the frame keeps the buffer it was given.
\<close>

theorem frame_roundtrip:
  assumes "EthernetFrame_init octets = Inr f"
    and "5 \<le> ip_ihl (eth_payload f)"
    and "5 \<le> tcp_data_offset (ip_payload (eth_payload f))"
    and "14 + 4 * ip_ihl (eth_payload f) + 4 * tcp_data_offset (ip_payload (eth_payload f))
           \<le> int (length octets)"
  shows "EthernetFrame_raw f = Inr octets \<and> eth_raw f = octets"
proof -
  note d = EthernetFrame_init_Inr [OF assms(1)]
  have "length (slice_from octets 14) = length octets - 14"
    by (simp add: slice_from_nonneg)
  then have "4 * ip_ihl (eth_payload f) + 4 * tcp_data_offset (ip_payload (eth_payload f))
           \<le> int (length (slice_from octets 14))"
    using assms(4) d(2) by simp
  with d(1) assms(2,3) have r: "IPv4Packet_raw (eth_payload f) = Inr (slice_from octets 14)"
    by (intro IPv4Packet_roundtrip)
  have e: "to_octets (eth_ethertype f) 2 = Inr (slice octets 12 14)"
    using d(2) slice_append [of 12 13 14 octets]
    by (simp add: d(5) to_octets_value be_bytes_2_pair
        slice_single [of 12, simplified] slice_single [of 13, simplified])
  have "slice octets 0 6 @ slice octets 6 12 @ slice octets 12 14 @ slice_from octets 14
      = slice_from octets 0"
    by (simp add: slice_append_from slice_append)
  then have "EthernetFrame_raw f = Inr octets"
    by (simp add: EthernetFrame_raw_def d(3,4) MACAddress_init_def e r slice_from_nonneg)
  then show ?thesis using d(6) by simp
qed

theorem frame_roundtrip_witness:
  "EthernetFrame_init sample_frame = Inr sample_decoded \<and>
   EthernetFrame_raw sample_decoded = Inr sample_frame"
  using frame_roundtrip [of sample_frame sample_decoded] sample_frame_decoded
  by simp

section \<open>Bit extraction\<close>

text \<open>
  Claim C6, as stated: \<^verbatim>\<open>to_bits(0b10110100, 2, 3, 8)\<close> returns \<^verbatim>\<open>0b101\<close>. It does not: the
  three bits at offsets 2, 3 and 4 from the most significant bit of \<^verbatim>\<open>10110100\<close> are
  \<^verbatim>\<open>110\<close>.
\<close>

theorem to_bits_example_counterexample: "to_bits 0b10110100 2 3 8 \<noteq> Inr 0b101"
  by (simp add: to_bits_value)

text \<open>
  Claim C6, amended. \<^verbatim>\<open>to_bits(0b10110100, 2, 3, 8)\<close> returns \<^verbatim>\<open>0b110\<close> (6), and in general,
  whenever \<open>off + len \<le> width\<close>, \<^verbatim>\<open>to_bits\<close> returns the unsigned integer held in the
  \<open>len\<close>-bit field that starts at bit \<open>off\<close> counted from the most significant bit of a
  \<open>width\<close>-bit value: the result is in \<open>[0, 2 ^ len)\<close>, and its bit number \<open>j\<close> counted from
  the top of the field is bit number \<open>off + j\<close> counted from the top of the value.
\<close>

theorem to_bits_field:
  "to_bits 0b10110100 2 3 8 = Inr 0b110 \<and>
   (off + len \<le> width \<longrightarrow>
     (\<exists>r. to_bits v (int off) (int len) (int width) = Inr r \<and> 0 \<le> r \<and> r < 2 ^ len \<and>
          (\<forall>j<len. bit r (len - 1 - j) = bit v (width - 1 - (off + j)))))"
proof (intro conjI impI)
  show "to_bits 0b10110100 2 3 8 = Inr 0b110"
    by (simp add: to_bits_value)
next
  assume le: "off + len \<le> width"
  define r where "r = take_bit len (drop_bit (width - off - len) v)"
  have "to_bits v (int off) (int len) (int width) = Inr r"
    using le by (simp add: to_bits_value r_def nat_diff_distrib)
  moreover have "0 \<le> r" "r < 2 ^ len"
    by (simp_all add: r_def)
  moreover have "bit r (len - 1 - j) = bit v (width - 1 - (off + j))" if "j < len" for j
  proof -
    have "width - off - len + (len - 1 - j) = width - 1 - (off + j)"
      using le that by simp
    then show ?thesis
      using that by (simp add: r_def bit_simps)
  qed
  ultimately show "\<exists>r. to_bits v (int off) (int len) (int width) = Inr r \<and> 0 \<le> r \<and> r < 2 ^ len \<and>
          (\<forall>j<len. bit r (len - 1 - j) = bit v (width - 1 - (off + j)))"
    by blast
qed

theorem to_bits_field_witness:
  "to_bits 180 2 3 8 = Inr 6 \<and> bit (6::int) 2 = bit (180::int) 5 \<and> bit (6::int) 1 = bit (180::int) 4
   \<and> bit (6::int) 0 = bit (180::int) 3"
proof -
  from to_bits_field [of 2 3 8 180]
  obtain r where r: "to_bits 180 2 3 8 = Inr r"
    and b: "\<forall>j<3. bit r (3 - 1 - j) = bit (180::int) (8 - 1 - (2 + j))"
    by auto
  from r have "r = 6" by (simp add: to_bits_value)
  with b have "bit (6::int) (3 - 1 - j) = bit (180::int) (8 - 1 - (2 + j))" if "j < 3" for j :: nat
    using that by blast
  from this [of 0] this [of 1] this [of 2] r \<open>r = 6\<close> show ?thesis by simp
qed

section \<open>Rejection of a frame that is not IPv4\<close>

text \<open>
  Claim C8. For every buffer that has the ethertype bytes \<^verbatim>\<open>0x08 0x06\<close> at offsets 12 and
  13, constructing the frame raises the exception of the ethertype check,
  \<^verbatim>\<open>ValueError("non-ipv4 packet")\<close>, whatever the rest of the buffer holds; the result of
  the constructor is the exception alone, there is no frame value.
\<close>

theorem arp_frame_rejected:
  "13 < length octets \<Longrightarrow> octets ! 12 = 0x08 \<Longrightarrow> octets ! 13 = 0x06 \<Longrightarrow>
   EthernetFrame_init octets = Inl (ValueError ''non-ipv4 packet'')"
  by (simp add: EthernetFrame_init_value)

theorem arp_frame_rejected_witness:
  "EthernetFrame_init [0xff, 0xff, 0xff, 0xff, 0xff, 0xff, 0, 0x11, 0x22, 0x33, 0x44, 0x55, 0x08, 0x06,
     0, 1, 8, 0, 6, 4, 0, 1] = Inl (ValueError ''non-ipv4 packet'')"
  by (rule arp_frame_rejected) simp_all

section \<open>Address values\<close>

text \<open>
  Claim C9, as stated: construction of a \<^verbatim>\<open>MACAddress\<close> either rejects its input or yields
  exactly 6 octets. The constructor has no length check: from two bytes it builds an
  address of two elements.
\<close>

theorem MACAddress_length_counterexample:
  "length (mac_address (MACAddress_init [0x00, 0x11])) \<noteq> 6"
  by (simp add: MACAddress_init_def)

text \<open>
  Claim C9, amended. A \<^verbatim>\<open>MACAddress\<close> holds, in order, one unsigned 8-bit element per byte
  of the sequence it is constructed from, and construction never rejects. The two
  addresses of a decoded frame are built from \<^verbatim>\<open>octets[0:6]\<close> and \<^verbatim>\<open>octets[6:12]\<close> and hold
  exactly 6 elements each.
\<close>

theorem MACAddress_elements:
  "mac_address (MACAddress_init octets) = map uint octets \<and>
   length (mac_address (MACAddress_init octets)) = length octets \<and>
   list_all (\<lambda>x. 0 \<le> x \<and> x < 256) (mac_address (MACAddress_init octets)) \<and>
   (EthernetFrame_init buffer = Inr f \<longrightarrow>
      eth_dest_address f = MACAddress_init (slice buffer 0 6) \<and>
      eth_source_address f = MACAddress_init (slice buffer 6 12) \<and>
      length (mac_address (eth_dest_address f)) = 6 \<and>
      length (mac_address (eth_source_address f)) = 6)"
proof (intro conjI impI)
  show "list_all (\<lambda>x. 0 \<le> x \<and> x < 256) (mac_address (MACAddress_init octets))"
    using uint_lt2p [where 'a = 8] by (simp add: MACAddress_init_def list_all_iff)
next
  assume d: "EthernetFrame_init buffer = Inr f"
  then have len: "14 \<le> length buffer"
    by (simp add: EthernetFrame_init_value split: if_splits)
  from d obtain p where f: "f = \<lparr>eth_raw = buffer,
          eth_dest_address = MACAddress_init (slice buffer 0 6),
          eth_source_address = MACAddress_init (slice buffer 6 12),
          eth_ethertype = push_bit 8 (uint (buffer ! 12)) + uint (buffer ! 13),
          eth_payload = p\<rparr>"
    by (auto simp: EthernetFrame_init_value ebind_def split: if_splits sum.splits)
  show "eth_dest_address f = MACAddress_init (slice buffer 0 6)"
    "eth_source_address f = MACAddress_init (slice buffer 6 12)"
    by (simp_all add: f)
  show "length (mac_address (eth_dest_address f)) = 6"
    "length (mac_address (eth_source_address f)) = 6"
    using len by (simp_all add: f MACAddress_init_def length_slice)
qed (simp_all add: MACAddress_init_def)

theorem MACAddress_elements_witness:
  "\<exists>f. EthernetFrame_init sample_frame = Inr f \<and>
       mac_address (eth_dest_address f) = [0x00, 0x11, 0x22, 0x33, 0x44, 0x55] \<and>
       length (mac_address (eth_dest_address f)) = 6 \<and>
       length (mac_address (eth_source_address f)) = 6"
proof -
  from sample_decodes obtain f where f: "EthernetFrame_init sample_frame = Inr f" ..
  from MACAddress_elements [of "[]" sample_frame f] f
  have a: "eth_dest_address f = MACAddress_init (slice sample_frame 0 6)"
    and b: "length (mac_address (eth_dest_address f)) = 6"
    and c: "length (mac_address (eth_source_address f)) = 6"
    by blast+
  have "mac_address (eth_dest_address f) = [0x00, 0x11, 0x22, 0x33, 0x44, 0x55]"
    by (simp add: a MACAddress_init_def slice_nonneg)
  with b c show ?thesis using f by blast
qed

section \<open>Checksum self-consistency\<close>

lemma wsum_append_even: "even (length xs) \<Longrightarrow> wsum (xs @ ys) = wsum xs + wsum ys"
  by (induction xs rule: wsum.induct) simp_all

text \<open>Two folds of a sum below 2^32 give its residue modulo 65535, in [0, 65535].\<close>

lemma fold_twice:
  assumes "0 \<le> s" "s < 4294967296"
  shows "\<exists>q. 0 \<le> q \<and> s = 65535 * q + fold_carry (fold_carry s)"
    and "0 \<le> fold_carry (fold_carry s)" and "fold_carry (fold_carry s) \<le> 65535"
    and "fold_carry (fold_carry s) = 0 \<Longrightarrow> s = 0"
proof -
  define a where "a = s div 65536"
  define b where "b = s mod 65536"
  have s: "s = 65536 * a + b" by (simp add: a_def b_def)
  have b: "0 \<le> b" "b < 65536" by (simp_all add: b_def)
  have a: "0 \<le> a" "a < 65536" using assms by (simp_all add: a_def div_less_iff_less_mult pos_imp_zdiv_nonneg_iff)
  have f1: "fold_carry s = a + b" by (simp add: fold_carry_def a_def b_def)
  have f2: "fold_carry (fold_carry s) = (a + b) div 65536 + (a + b) mod 65536"
    by (subst f1) (simp add: fold_carry_def)
  show "\<exists>q. 0 \<le> q \<and> s = 65535 * q + fold_carry (fold_carry s)"
   and "0 \<le> fold_carry (fold_carry s)" and "fold_carry (fold_carry s) \<le> 65535"
   and "fold_carry (fold_carry s) = 0 \<Longrightarrow> s = 0"
  proof -
    consider "a + b < 65536" | "65536 \<le> a + b" by linarith
    then have "(fold_carry (fold_carry s) = a + b \<and> a + b < 65536)
             \<or> (fold_carry (fold_carry s) = a + b - 65535 \<and> 65536 \<le> a + b)"
    proof cases
      case 1
      then show ?thesis using a b by (simp add: f2)
    next
      case 2
      have "(a + b) div 65536 = 1"
        using 2 a b by (intro int_div_pos_eq [where r = "a + b - 65536"]) simp_all
      moreover have "(a + b) mod 65536 = a + b - 65536"
        using 2 a b by (intro int_mod_pos_eq [where q = 1]) simp_all
      ultimately show ?thesis using 2 by (simp add: f2)
    qed
    then show "\<exists>q. 0 \<le> q \<and> s = 65535 * q + fold_carry (fold_carry s)"
      and "0 \<le> fold_carry (fold_carry s)" and "fold_carry (fold_carry s) \<le> 65535"
      and "fold_carry (fold_carry s) = 0 \<Longrightarrow> s = 0"
    proof -
      assume d: "(fold_carry (fold_carry s) = a + b \<and> a + b < 65536)
             \<or> (fold_carry (fold_carry s) = a + b - 65535 \<and> 65536 \<le> a + b)"
      from d a b show "0 \<le> fold_carry (fold_carry s)" by auto
      from d a b show "fold_carry (fold_carry s) \<le> 65535" by auto
      from d a b s show "fold_carry (fold_carry s) = 0 \<Longrightarrow> s = 0" by auto
      from d show "\<exists>q. 0 \<le> q \<and> s = 65535 * q + fold_carry (fold_carry s)"
      proof
        assume "fold_carry (fold_carry s) = a + b \<and> a + b < 65536"
        then have "0 \<le> a \<and> s = 65535 * a + fold_carry (fold_carry s)" using a s by simp
        then show ?thesis ..
      next
        assume "fold_carry (fold_carry s) = a + b - 65535 \<and> 65536 \<le> a + b"
        then have "0 \<le> a + 1 \<and> s = 65535 * (a + 1) + fold_carry (fold_carry s)" using a s by simp
        then show ?thesis ..
      qed
    qed
  qed
qed

lemma ck_after_insert:
  assumes "0 \<le> s" and "s + spec_complement16 (fold_carry (fold_carry s)) < 4294967296"
  shows "ck (s + spec_complement16 (fold_carry (fold_carry s))) = 0"
proof -
  define f where "f = fold_carry (fold_carry s)"
  define s' where "s' = s + spec_complement16 f"
  define f' where "f' = fold_carry (fold_carry s')"
  have c0: "0 \<le> spec_complement16 f"
    using pos_mod_bound [of 65536 f] by (simp add: spec_complement16_def)
  then have s: "s < 4294967296" using assms by (simp add: f_def)
  from fold_twice [OF assms(1) s] obtain q
    where q: "0 \<le> q" "s = 65535 * q + f" and f: "0 \<le> f" "f \<le> 65535"
    by (auto simp: f_def)
  have c: "spec_complement16 f = 65535 - f"
    using f by (simp add: spec_complement16_def)
  have s': "s' = 65535 * (q + 1)" "0 < s'" "s' < 4294967296"
    using q c assms by (simp_all add: s'_def f_def)
  from fold_twice [of s'] s' obtain q'
    where q': "0 \<le> q'" "s' = 65535 * q' + f'" and f': "0 \<le> f'" "f' \<le> 65535" "f' \<noteq> 0"
    by (auto simp: f'_def)
  have "f' = 65535 * (q + 1 - q')" using s'(1) q'(2) by simp
  with f' have "f' = 65535" by auto
  then have "ck s' = 0"
    by (simp add: ck_arith f'_def [symmetric] spec_complement16_def spec_swap16_def)
  then show ?thesis by (simp add: s'_def f_def)
qed

lemma spec_swap16_twice: "0 \<le> x \<Longrightarrow> x < 65536 \<Longrightarrow> spec_swap16 (spec_swap16 x) = x"
proof -
  assume x: "0 \<le> x" "x < 65536"
  define h where "h = x div 256"
  define l where "l = x mod 256"
  have hl: "0 \<le> h" "h < 256" "0 \<le> l" "l < 256" "x = 256 * h + l"
    using x by (simp_all add: h_def l_def div_less_iff_less_mult pos_imp_zdiv_nonneg_iff)
  have 1: "spec_swap16 x = 256 * l + h"
    using hl by (simp add: spec_swap16_def h_def [symmetric] l_def [symmetric])
  have "(256 * l + h) mod 256 = h" "(256 * l + h) div 256 = l"
    using hl by simp_all
  then have "spec_swap16 (256 * l + h) = 256 * h + l"
    using hl by (simp add: spec_swap16_def)
  then show ?thesis using 1 hl by simp
qed

lemma wsum_be_bytes2: "wsum (be_bytes 2 c) = spec_swap16 c"
  by (simp add: numeral_2_eq_2 spec_swap16_def uint_word_of_int_eq take_bit_eq_mod
      drop_bit_eq_div push_bit_eq_mult)

lemma length_be_bytes [simp]: "length (be_bytes n i) = n"
  by (induction n arbitrary: i) simp_all

lemma checksum_field_inserted:
  assumes "even (length P)" and "length P + 2 + length Q \<le> 131074"
    and "checksum (P @ [0, 0] @ Q) = Inr c"
  shows "checksum (P @ be_bytes 2 c @ Q) = Inr 0"
proof -
  define s where "s = wsum P + wsum Q"
  define x where "x = spec_complement16 (fold_carry (fold_carry s))"
  have x: "0 \<le> x" "x < 65536"
    using pos_mod_bound [of 65536 "fold_carry (fold_carry s)"]
      pos_mod_sign [of 65536 "fold_carry (fold_carry s)"]
    by (simp_all add: x_def spec_complement16_def)
  have s: "wsum (P @ [0, 0] @ Q) = s"
    using assms(1) by (simp add: wsum_append_even s_def)
  then have c: "c = spec_swap16 x"
    using assms(3) by (simp add: checksum_value ck_arith x_def)
  have e: "even (length (be_bytes 2 c))" by simp
  have "wsum (P @ be_bytes 2 c @ Q) = wsum P + wsum (be_bytes 2 c) + wsum Q"
    using assms(1) e by (simp add: wsum_append_even)
  also have "\<dots> = s + x"
    using x by (simp add: wsum_be_bytes2 c spec_swap16_twice s_def)
  finally have s': "wsum (P @ be_bytes 2 c @ Q) = s + x" .
  have "wsum (P @ be_bytes 2 c @ Q) \<le> 65535 * int ((length (P @ be_bytes 2 c @ Q) + 1) div 2)"
    by (rule wsum_bound)
  also have "\<dots> \<le> 65535 * 65537"
    using assms(2) by simp
  finally have "s + x < 4294967296" by (simp add: s')
  moreover have "0 \<le> s" by (simp add: s_def wsum_nonneg)
  ultimately have "ck (s + x) = 0"
    unfolding x_def by (rule ck_after_insert [rotated])
  then show ?thesis by (simp add: checksum_value s')
qed

lemma zero_field_split:
  assumes "k + 2 \<le> length H" "H ! k = 0" "H ! (k + 1) = 0"
  shows "H = take k H @ [0, 0] @ drop (k + 2) H"
proof -
  have "H = take k H @ H ! k # drop (Suc k) H"
    using assms(1) by (simp add: id_take_nth_drop)
  moreover have "drop (Suc k) H = H ! (Suc k) # drop (Suc (Suc k)) H"
    using assms(1) by (simp add: Cons_nth_drop_Suc)
  ultimately show ?thesis using assms(2,3) by simp
qed
text \<open>
  Claim C5, as stated: for every byte buffer with a zero 2-byte field at an even offset,
  writing the big-endian checksum into the field makes the checksum of the buffer 0. The
  engine folds the sum twice only, which absorbs the carries of a sum below \<open>2 ^ 32\<close>; on
  the buffer of 131080 bytes below, whose word sum is \<open>2 ^ 32 + 65535\<close>, the checksum is
  \<^verbatim>\<open>0xffff\<close>, and with \<^verbatim>\<open>0xffff\<close> in the field the checksum is \<^verbatim>\<open>0xffff\<close> again, not 0.
\<close>

theorem checksum_self_consistent_counterexample:
  "even (131078::nat) \<and> 131078 + 2 \<le> length big_buffer \<and>
   big_buffer ! 131078 = 0 \<and> big_buffer ! (131078 + 1) = 0 \<and>
   checksum big_buffer = Inr 0xffff \<and> to_octets 0xffff 2 = Inr [0xff, 0xff] \<and>
   checksum (take 131078 big_buffer @ [0xff, 0xff] @ drop (131078 + 2) big_buffer) = Inr 0xffff"
proof -
  have r: "replicate 131074 (0xff :: 8 word) = replicate (2 * 65537) 0xff" by simp
  have c: "checksum big_buffer = Inr 0xffff"
    unfolding checksum_value r wsum_replicate_ff
    by (simp add: ck_arith fold_carry_def spec_complement16_def spec_swap16_def push_bit_eq_mult)
  have e: "to_octets 0xffff 2 = Inr [0xff, 0xff]"
    by code_simp
  have t: "take 131078 big_buffer @ [0xff, 0xff] @ drop (131078 + 2) big_buffer
         = replicate (2 * 65537) 0xff @ [0x00, 0x80, 0x00, 0x80, 0xff, 0xff]"
    by simp
  have c': "checksum (take 131078 big_buffer @ [0xff, 0xff] @ drop (131078 + 2) big_buffer) = Inr 0xffff"
    unfolding t checksum_value wsum_replicate_ff
    by (simp add: ck_arith fold_carry_def spec_complement16_def spec_swap16_def push_bit_eq_mult)
  have n: "big_buffer ! 131078 = 0" "big_buffer ! (131078 + 1) = 0"
    by (simp_all add: nth_append)
  show ?thesis using c e c' n by simp
qed

text \<open>
  Claim C5, amended. For every byte buffer \<open>H\<close> of at most 131074 bytes (65537 words)
  whose 2-byte field at an even offset \<open>k\<close> is zero, \<^verbatim>\<open>checksum(H)\<close> returns a value \<open>c\<close>, and
  the checksum of \<open>H\<close> with the 2-byte big-endian encoding of \<open>c\<close> written into the field is
  exactly 0.
\<close>

theorem checksum_self_consistent:
  assumes "even k" and "k + 2 \<le> length H" and "H ! k = 0" and "H ! (k + 1) = 0"
    and "length H \<le> 131074"
  shows "\<exists>c enc. checksum H = Inr c \<and> to_octets c 2 = Inr enc \<and>
           checksum (take k H @ enc @ drop (k + 2) H) = Inr 0"
proof -
  have H: "H = take k H @ [0, 0] @ drop (k + 2) H"
    using assms(2-4) by (rule zero_field_split)
  have "checksum (take k H @ [0, 0] @ drop (k + 2) H) = Inr (ck (wsum H))"
    using H by (simp add: checksum_value)
  moreover have "even (length (take k H))" using assms(1,2) by simp
  moreover have "length (take k H) + 2 + length (drop (k + 2) H) \<le> 131074"
    using assms(2,5) by simp
  ultimately have "checksum (take k H @ be_bytes 2 (ck (wsum H)) @ drop (k + 2) H) = Inr 0"
    by (intro checksum_field_inserted)
  then show ?thesis
    by (simp add: checksum_value to_octets_value)
qed

theorem checksum_self_consistent_witness:
  "checksum sample_zeroed_header = Inr 0x9c6d \<and> to_octets 0x9c6d 2 = Inr [0x9c, 0x6d] \<and>
   checksum (take 10 sample_zeroed_header @ [0x9c, 0x6d] @ drop 12 sample_zeroed_header) = Inr 0"
proof -
  have c: "checksum sample_zeroed_header = Inr 0x9c6d"
    by (simp add: checksum_value ck_arith fold_carry_def spec_complement16_def spec_swap16_def)
  have e: "to_octets 0x9c6d 2 = Inr [0x9c, 0x6d]"
    by code_simp
  from checksum_self_consistent [of 10 sample_zeroed_header] c e show ?thesis
    by simp
qed

section \<open>Checksum recomputation\<close>

lemma IPv4Packet_header_shape:
  assumes "ip_address (ip_source_address p) = map uint src"
    and "ip_address (ip_dest_address p) = map uint dst"
  shows "\<exists>P Q. length P = 10 \<and> Q = src @ dst @ be_bytes (nat ((ip_ihl p - 5) * 4)) (ip_options p) \<and>
           (\<forall>c t. IPv4Packet_raw_header (p\<lparr>ip_checksum := c, ip_payload := t\<rparr>)
                    = Inr (P @ be_bytes 2 c @ Q))"
proof -
  define P where "P = [word_of_int (push_bit 4 (ip_version p) + ip_ihl p) :: 8 word]
        @ [word_of_int (push_bit 2 (ip_dscp p) + ip_ecn p)]
        @ be_bytes 2 (ip_length p) @ be_bytes 2 (ip_identification p)
        @ be_bytes 2 (push_bit 13 (ip_flags p) + ip_fragment_offset p)
        @ [word_of_int (ip_ttl p)] @ [word_of_int (ip_protocol p)]"
  have "length P = 10" by (simp add: P_def)
  moreover have "IPv4Packet_raw_header (p\<lparr>ip_checksum := c, ip_payload := t\<rparr>)
      = Inr (P @ be_bytes 2 c @ src @ dst @ be_bytes (nat ((ip_ihl p - 5) * 4)) (ip_options p))"
    for c t
    using assms by (subst IPv4Packet_raw_header_value [of _ src dst]) (simp_all add: P_def)
  ultimately show ?thesis by blast
qed

lemma TCPPacket_header_shape:
  "\<exists>P Q. length P = 16 \<and> length Q = 2 + nat ((tcp_data_offset t - 5) * 4) \<and>
         (\<forall>c pl. TCPPacket_raw_header (t\<lparr>tcp_checksum := c, tcp_payload := pl\<rparr>)
                  = Inr (P @ be_bytes 2 c @ Q))"
proof -
  define P where "P = be_bytes 2 (tcp_source_port t) @ be_bytes 2 (tcp_dest_port t)
        @ be_bytes 4 (tcp_sequence t) @ be_bytes 4 (tcp_ack_number t)
        @ [word_of_int (push_bit 4 (tcp_data_offset t) + push_bit 1 (tcp_reserved t)
                         + py_int (tcp_NS t)) :: 8 word]
        @ [word_of_int (push_bit 7 (py_int (tcp_CWR t)) + push_bit 6 (py_int (tcp_ECE t))
             + push_bit 5 (py_int (tcp_URG t)) + push_bit 4 (py_int (tcp_ACK t))
             + push_bit 3 (py_int (tcp_PSH t)) + push_bit 2 (py_int (tcp_RST t))
             + push_bit 1 (py_int (tcp_SYN t)) + py_int (tcp_FIN t))]
        @ be_bytes 2 (tcp_window_size t)"
  define Q where "Q = be_bytes 2 (tcp_urgent_pointer t)
        @ be_bytes (nat ((tcp_data_offset t - 5) * 4)) (tcp_options t)"
  have "length P = 16" by (simp add: P_def)
  moreover have "length Q = 2 + nat ((tcp_data_offset t - 5) * 4)" by (simp add: Q_def)
  moreover have "TCPPacket_raw_header (t\<lparr>tcp_checksum := c, tcp_payload := pl\<rparr>)
      = Inr (P @ be_bytes 2 c @ Q)" for c pl
    by (simp add: TCPPacket_raw_header_value P_def Q_def)
  ultimately show ?thesis by blast
qed

lemma be_bytes_2_zero: "be_bytes 2 0 = [0, 0]"
  by (simp add: numeral_2_eq_2)

lemma IPv4Packet_replace_checksum_value:
  assumes "ip_address (ip_source_address p) = map uint src"
    and "ip_address (ip_dest_address p) = map uint dst"
  shows "\<exists>P Q c. length P = 10
           \<and> Q = src @ dst @ be_bytes (nat ((ip_ihl p - 5) * 4)) (ip_options p)
           \<and> (\<forall>x t. IPv4Packet_raw_header (p\<lparr>ip_checksum := x, ip_payload := t\<rparr>)
                      = Inr (P @ be_bytes 2 x @ Q))
           \<and> checksum (P @ [0, 0] @ Q) = Inr c
           \<and> IPv4Packet_replace_checksum p = Inr (p\<lparr>ip_checksum := c\<rparr>)"
proof -
  from IPv4Packet_header_shape [OF assms] obtain P Q
    where P: "length P = 10"
      and Q: "Q = src @ dst @ be_bytes (nat ((ip_ihl p - 5) * 4)) (ip_options p)"
      and h: "\<And>x t. IPv4Packet_raw_header (p\<lparr>ip_checksum := x, ip_payload := t\<rparr>)
                    = Inr (P @ be_bytes 2 x @ Q)"
    by blast
  define c where "c = ck (wsum (P @ [0, 0] @ Q))"
  have c: "checksum (P @ [0, 0] @ Q) = Inr c" by (simp add: checksum_value c_def)
  have "IPv4Packet_raw_header (p\<lparr>ip_checksum := 0\<rparr>) = Inr (P @ [0, 0] @ Q)"
    using h [where x = 0 and t = "ip_payload p"] by (simp add: be_bytes_2_zero)
  then have "IPv4Packet_replace_checksum p = Inr (p\<lparr>ip_checksum := c\<rparr>)"
    using c by (simp add: IPv4Packet_replace_checksum_def)
  with P Q h c show ?thesis by blast
qed

lemma TCPPacket_raw_length:
  assumes "TCPPacket_raw_header t = Inr h"
  shows "TCPPacket_raw t = Inr (h @ tcp_payload t)"
  using assms by (simp add: TCPPacket_raw_def)

lemma IPv4Packet_tcp_checksum_bytes_value:
  assumes "ip_address (ip_source_address p) = map uint src"
    and "ip_address (ip_dest_address p) = map uint dst"
    and "TCPPacket_raw_header (ip_payload p) = Inr h"
  shows "IPv4Packet_tcp_checksum_bytes p =
           Inr (src @ dst @ [0, word_of_int (ip_protocol p)]
                @ be_bytes 2 (int (length h + length (tcp_payload (ip_payload p)))))"
  using assms
  by (simp add: IPv4Packet_tcp_checksum_bytes_def to_octets_value TCPPacket_raw_length)

lemma TCPPacket_replace_checksum_value:
  assumes "ip_address (ip_source_address p) = map uint src"
    and "ip_address (ip_dest_address p) = map uint dst"
  shows "\<exists>P Q pseudo c. length P = 16 \<and> length Q = 2 + nat ((tcp_data_offset (ip_payload p) - 5) * 4)
           \<and> (\<forall>x pl. TCPPacket_raw_header ((ip_payload p)\<lparr>tcp_checksum := x, tcp_payload := pl\<rparr>)
                      = Inr (P @ be_bytes 2 x @ Q))
           \<and> pseudo = src @ dst @ [0, word_of_int (ip_protocol p)]
                @ be_bytes 2 (int (length P + 2 + length Q + length (tcp_payload (ip_payload p))))
           \<and> (\<forall>x. IPv4Packet_tcp_checksum_bytes (p\<lparr>ip_payload := (ip_payload p)\<lparr>tcp_checksum := x\<rparr>\<rparr>)
                      = Inr pseudo)
           \<and> checksum (pseudo @ P @ [0, 0] @ Q) = Inr c
           \<and> TCPPacket_replace_checksum p
                = Inr (p\<lparr>ip_payload := (ip_payload p)\<lparr>tcp_checksum := c\<rparr>\<rparr>)"
proof -
  let ?t = "ip_payload p"
  from TCPPacket_header_shape [of ?t] obtain P Q
    where P: "length P = 16" and Q: "length Q = 2 + nat ((tcp_data_offset ?t - 5) * 4)"
      and h: "\<And>x pl. TCPPacket_raw_header (?t\<lparr>tcp_checksum := x, tcp_payload := pl\<rparr>)
                    = Inr (P @ be_bytes 2 x @ Q)"
    by blast
  define pseudo where "pseudo = src @ dst @ [0, word_of_int (ip_protocol p)]
                @ be_bytes 2 (int (length P + 2 + length Q + length (tcp_payload ?t)))"
  define c where "c = ck (wsum (pseudo @ P @ [0, 0] @ Q))"
  have hx: "TCPPacket_raw_header (?t\<lparr>tcp_checksum := x\<rparr>) = Inr (P @ be_bytes 2 x @ Q)" for x
    using h [where x = x and pl = "tcp_payload ?t"] by simp
  have ps: "IPv4Packet_tcp_checksum_bytes (p\<lparr>ip_payload := ?t\<lparr>tcp_checksum := x\<rparr>\<rparr>) = Inr pseudo" for x
    using assms hx [of x]
    by (subst IPv4Packet_tcp_checksum_bytes_value [of _ src dst "P @ be_bytes 2 x @ Q"])
      (simp_all add: pseudo_def)
  have c: "checksum (pseudo @ P @ [0, 0] @ Q) = Inr c" by (simp add: checksum_value c_def)
  have z: "TCPPacket_raw_header (ip_payload (p\<lparr>ip_payload := ?t\<lparr>tcp_checksum := 0\<rparr>\<rparr>))
      = Inr (P @ [0, 0] @ Q)"
    using hx [of 0] by (simp add: be_bytes_2_zero)
  have r: "TCPPacket_replace_checksum p = Inr (p\<lparr>ip_payload := ?t\<lparr>tcp_checksum := c\<rparr>\<rparr>)"
    unfolding TCPPacket_replace_checksum_def Let_def ps z ebind_Inr c by simp
  show ?thesis
    by (intro exI [of _ P] exI [of _ Q] exI [of _ pseudo] exI [of _ c] conjI allI P Q h ps c r)
      (simp add: pseudo_def)
qed

lemma decoded_addresses:
  assumes "IPv4Packet_init octets = Inr p"
  shows "ip_address (ip_source_address p) = map uint (slice octets 12 16)"
    and "ip_address (ip_dest_address p) = map uint (slice octets 16 20)"
    and "ip_protocol p = 6"
    and "0 \<le> ip_ihl p" and "ip_ihl p \<le> 15"
    and "0 \<le> tcp_data_offset (ip_payload p)" and "tcp_data_offset (ip_payload p) \<le> 15"
proof -
  from IPv4Packet_init_Inr [OF assms] obtain t
    where t: "TCPPacket_init (slice_from octets (20 + 4 * (ip_ihl p - 5))) = Inr t"
      and p: "p = IPv4Packet_fields octets t" and pr: "uint (octets ! 9) = 6"
    by blast
  show "ip_address (ip_source_address p) = map uint (slice octets 12 16)"
    "ip_address (ip_dest_address p) = map uint (slice octets 16 20)"
    by (simp_all add: p IPv4Packet_fields_def IPv4Address_init_def)
  show "ip_protocol p = 6" using pr by (simp add: p IPv4Packet_fields_def)
  show "0 \<le> ip_ihl p" "ip_ihl p \<le> 15"
    using nibble_bounds [of "uint (octets ! 0)"] by (simp_all add: p)
  have "tcp_data_offset t = take_bit 4 (drop_bit 4 (uint (slice_from octets (20 + 4 * (ip_ihl p - 5)) ! 12)))"
    using TCPPacket_init_Inr(1) [OF t] by (simp add: TCPPacket_fields_def)
  then show "0 \<le> tcp_data_offset (ip_payload p)" "tcp_data_offset (ip_payload p) \<le> 15"
    using nibble_bounds [of "drop_bit 4 (uint (slice_from octets (20 + 4 * (ip_ihl p - 5)) ! 12))"]
    by (simp_all add: p)
qed

text \<open>
  Claim C7. For every decoded packet, the IPv4 layer's \<^verbatim>\<open>replace_checksum\<close> returns the
  packet with the header checksum set to \<^verbatim>\<open>checksum\<close> of the header serialised with a zero
  checksum field, every other field unchanged. The checksummed bytes are the header alone:
  they end with the option bytes, and they are the same whatever the TCP payload is.
\<close>

theorem IPv4Packet_replace_checksum_header_only:
  assumes "IPv4Packet_init octets = Inr p"
  shows "\<exists>h c fixed opts.
           IPv4Packet_raw_header (p\<lparr>ip_checksum := 0\<rparr>) = Inr h \<and> checksum h = Inr c \<and>
           IPv4Packet_replace_checksum p = Inr (p\<lparr>ip_checksum := c\<rparr>) \<and>
           to_octets (ip_options p) ((ip_ihl p - 5) * 4) = Inr opts \<and> h = fixed @ opts \<and>
           length fixed = 12 + length (ip_address (ip_source_address p))
                             + length (ip_address (ip_dest_address p)) \<and>
           (\<forall>t. IPv4Packet_raw_header (p\<lparr>ip_checksum := 0, ip_payload := t\<rparr>) = Inr h)"
proof -
  note a = decoded_addresses(1,2) [OF assms]
  from IPv4Packet_replace_checksum_value [OF a] obtain P Q c
    where P: "length P = 10"
      and Q: "Q = slice octets 12 16 @ slice octets 16 20
                @ be_bytes (nat ((ip_ihl p - 5) * 4)) (ip_options p)"
      and h: "\<And>x t. IPv4Packet_raw_header (p\<lparr>ip_checksum := x, ip_payload := t\<rparr>)
                    = Inr (P @ be_bytes 2 x @ Q)"
      and c: "checksum (P @ [0, 0] @ Q) = Inr c"
      and r: "IPv4Packet_replace_checksum p = Inr (p\<lparr>ip_checksum := c\<rparr>)"
    by blast
  let ?h = "P @ [0, 0] @ Q"
  let ?fixed = "P @ [0, 0] @ slice octets 12 16 @ slice octets 16 20"
  let ?opts = "be_bytes (nat ((ip_ihl p - 5) * 4)) (ip_options p)"
  have h0: "IPv4Packet_raw_header (p\<lparr>ip_checksum := 0, ip_payload := t\<rparr>) = Inr ?h" for t
    using h [where x = 0 and t = t] by (simp add: be_bytes_2_zero)
  have 1: "IPv4Packet_raw_header (p\<lparr>ip_checksum := 0\<rparr>) = Inr ?h"
    using h0 [of "ip_payload p"] by simp
  have 2: "to_octets (ip_options p) ((ip_ihl p - 5) * 4) = Inr ?opts"
    by (simp add: to_octets_value)
  have 3: "?h = ?fixed @ ?opts" by (simp add: Q)
  have 4: "length ?fixed = 12 + length (ip_address (ip_source_address p))
                             + length (ip_address (ip_dest_address p))"
    by (simp add: P a)
  from 1 c r 2 3 4 h0 show ?thesis by blast
qed

theorem IPv4Packet_replace_checksum_header_only_witness:
  "IPv4Packet_init (drop 14 sample_frame) = Inr sample_ip \<and>
   IPv4Packet_raw_header (sample_ip\<lparr>ip_checksum := 0\<rparr>) = Inr sample_zeroed_header \<and>
   checksum sample_zeroed_header = Inr 0x9c6d \<and>
   IPv4Packet_replace_checksum sample_ip = Inr (sample_ip\<lparr>ip_checksum := 0x9c6d\<rparr>)"
proof -
  have h: "IPv4Packet_raw_header (sample_ip\<lparr>ip_checksum := 0\<rparr>) = Inr sample_zeroed_header"
    by code_simp
  have c: "checksum sample_zeroed_header = Inr 0x9c6d"
    by (simp add: checksum_value ck_arith fold_carry_def spec_complement16_def spec_swap16_def)
  from IPv4Packet_replace_checksum_header_only [OF sample_ip_decoded] h c
  show ?thesis using sample_ip_decoded by auto
qed

text \<open>
  Claim C3, as stated: for every decoded packet the TCP checksum is computed over a 12-byte
  pseudo-header followed by the TCP header. The address slices \<^verbatim>\<open>octets[12:16]\<close> and
  \<^verbatim>\<open>octets[16:20]\<close> are not checked for their length: the frame below, whose IPv4 buffer has
  14 bytes, decodes, and its pseudo-header has 6 bytes.
\<close>

theorem pseudo_header_length_counterexample:
  "ebind (EthernetFrame_init runt_frame)
     (\<lambda>f. IPv4Packet_tcp_checksum_bytes
            ((eth_payload f)\<lparr>ip_payload := (ip_payload (eth_payload f))\<lparr>tcp_checksum := 0\<rparr>\<rparr>))
   = Inr [0x50, 0x10, 0x00, 0x06, 0x00, 0x14]"
  by code_simp

text \<open>
  Claim C3, amended. For every decoded packet whose IPv4 buffer has at least 20 bytes, and
  in whatever state \<open>t\<close> its TCP layer is when the method is called (any fields, any payload;
  the IPv4 header checksum may have been recomputed), the TCP layer's \<^verbatim>\<open>replace_checksum\<close>
  returns the packet with the TCP checksum set to \<^verbatim>\<open>checksum\<close> of the parent's 12-byte
  pseudo-header followed by the TCP header bytes serialised with a zero checksum field. The
  pseudo-header is the source address, the destination address, one zero byte, the protocol
  byte 6, and the 2-byte encoding of the length of the TCP segment as serialised at that
  moment: the header bytes followed by the payload \<open>t\<close> holds. The payload bytes are not part
  of the input: the header bytes are the same for every payload, and the payload enters
  through that length alone.
\<close>

theorem TCPPacket_replace_checksum_pseudo_header:
  assumes "IPv4Packet_init octets = Inr p" and "20 \<le> length octets"
  shows "\<exists>pseudo h c r len.
           IPv4Packet_tcp_checksum_bytes (p\<lparr>ip_checksum := x, ip_payload := t\<lparr>tcp_checksum := 0\<rparr>\<rparr>)
             = Inr pseudo \<and>
           TCPPacket_raw_header (t\<lparr>tcp_checksum := 0\<rparr>) = Inr h \<and>
           checksum (pseudo @ h) = Inr c \<and>
           TCPPacket_replace_checksum (p\<lparr>ip_checksum := x, ip_payload := t\<rparr>)
             = Inr (p\<lparr>ip_checksum := x, ip_payload := t\<lparr>tcp_checksum := c\<rparr>\<rparr>) \<and>
           TCPPacket_raw (t\<lparr>tcp_checksum := 0\<rparr>) = Inr r \<and> r = h @ tcp_payload t \<and>
           length h = 20 + nat ((tcp_data_offset t - 5) * 4) \<and>
           to_octets (int (length r)) 2 = Inr len \<and>
           pseudo = slice octets 12 16 @ slice octets 16 20 @ [0] @ [6] @ len \<and>
           length pseudo = 12 \<and>
           (\<forall>pl. TCPPacket_raw_header (t\<lparr>tcp_checksum := 0, tcp_payload := pl\<rparr>) = Inr h)"
proof -
  let ?q = "p\<lparr>ip_checksum := x, ip_payload := t\<rparr>"
  note a = decoded_addresses(1,2) [OF assms(1)]
  note pr = decoded_addresses(3) [OF assms(1)]
  have a': "ip_address (ip_source_address ?q) = map uint (slice octets 12 16)"
    "ip_address (ip_dest_address ?q) = map uint (slice octets 16 20)"
    using a by simp_all
  from TCPPacket_replace_checksum_value [OF a'] obtain P Q pseudo c
    where P: "length P = 16"
      and Q: "length Q = 2 + nat ((tcp_data_offset (ip_payload ?q) - 5) * 4)"
      and h: "\<And>y pl. TCPPacket_raw_header ((ip_payload ?q)\<lparr>tcp_checksum := y, tcp_payload := pl\<rparr>)
                      = Inr (P @ be_bytes 2 y @ Q)"
      and ps: "pseudo = slice octets 12 16 @ slice octets 16 20 @ [0, word_of_int (ip_protocol ?q)]
                @ be_bytes 2 (int (length P + 2 + length Q + length (tcp_payload (ip_payload ?q))))"
      and pb: "\<And>y. IPv4Packet_tcp_checksum_bytes (?q\<lparr>ip_payload := (ip_payload ?q)\<lparr>tcp_checksum := y\<rparr>\<rparr>)
                      = Inr pseudo"
      and c: "checksum (pseudo @ P @ [0, 0] @ Q) = Inr c"
      and r: "TCPPacket_replace_checksum ?q
                = Inr (?q\<lparr>ip_payload := (ip_payload ?q)\<lparr>tcp_checksum := c\<rparr>\<rparr>)"
    by blast
  let ?h = "P @ [0, 0] @ Q"
  let ?len = "be_bytes 2 (int (length (?h @ tcp_payload t)))"
  have hz: "TCPPacket_raw_header (t\<lparr>tcp_checksum := 0, tcp_payload := pl\<rparr>) = Inr ?h" for pl
    using h [where y = 0 and pl = pl] by (simp add: be_bytes_2_zero)
  have h0: "TCPPacket_raw_header (t\<lparr>tcp_checksum := 0\<rparr>) = Inr ?h"
    using hz [of "tcp_payload t"] by simp
  have raw: "TCPPacket_raw (t\<lparr>tcp_checksum := 0\<rparr>) = Inr (?h @ tcp_payload t)"
    using h0 by (simp add: TCPPacket_raw_def)
  have lh: "length ?h = 20 + nat ((tcp_data_offset t - 5) * 4)"
    using P Q by simp
  have len: "to_octets (int (length (?h @ tcp_payload t))) 2 = Inr ?len"
    by (simp add: to_octets_value)
  have ps': "pseudo = slice octets 12 16 @ slice octets 16 20 @ [0] @ [6] @ ?len"
    using pr by (simp add: ps)
  have l12: "length pseudo = 12"
    using assms(2) by (simp add: ps' length_slice)
  have pb0: "IPv4Packet_tcp_checksum_bytes (p\<lparr>ip_checksum := x, ip_payload := t\<lparr>tcp_checksum := 0\<rparr>\<rparr>)
      = Inr pseudo"
    using pb [of 0] by simp
  have r': "TCPPacket_replace_checksum ?q
      = Inr (p\<lparr>ip_checksum := x, ip_payload := t\<lparr>tcp_checksum := c\<rparr>\<rparr>)"
    using r by simp
  show ?thesis
    by (intro exI [of _ pseudo] exI [of _ ?h] exI [of _ c] exI [of _ "?h @ tcp_payload t"]
        exI [of _ ?len] conjI allI pb0 h0 c r' raw refl lh len ps' l12 hz)
qed

theorem TCPPacket_replace_checksum_pseudo_header_witness:
  "IPv4Packet_init (drop 14 sample_frame) = Inr sample_ip \<and>
   IPv4Packet_tcp_checksum_bytes (sample_ip\<lparr>ip_payload := sample_tcp\<lparr>tcp_checksum := 0\<rparr>\<rparr>)
     = Inr [0xc0, 0xa8, 0x00, 0x01, 0xc0, 0xa8, 0x00, 0xc7, 0x00, 0x06, 0x00, 0x18] \<and>
   TCPPacket_replace_checksum sample_ip
     = Inr (sample_ip\<lparr>ip_payload := sample_tcp\<lparr>tcp_checksum := 0xdd23\<rparr>\<rparr>) \<and>
   IPv4Packet_tcp_checksum_bytes
       (sample_ip\<lparr>ip_payload := sample_tcp\<lparr>tcp_checksum := 0, tcp_payload := []\<rparr>\<rparr>)
     = Inr [0xc0, 0xa8, 0x00, 0x01, 0xc0, 0xa8, 0x00, 0xc7, 0x00, 0x06, 0x00, 0x14] \<and>
   TCPPacket_replace_checksum (sample_ip\<lparr>ip_payload := sample_tcp\<lparr>tcp_payload := []\<rparr>\<rparr>)
     = Inr (sample_ip\<lparr>ip_payload := sample_tcp\<lparr>tcp_checksum := 0xdd27, tcp_payload := []\<rparr>\<rparr>)"
proof -
  have l: "20 \<le> length (drop 14 sample_frame)" by simp
  have ps: "IPv4Packet_tcp_checksum_bytes (sample_ip\<lparr>ip_payload := sample_tcp\<lparr>tcp_checksum := 0\<rparr>\<rparr>)
     = Inr [0xc0, 0xa8, 0x00, 0x01, 0xc0, 0xa8, 0x00, 0xc7, 0x00, 0x06, 0x00, 0x18]"
    by code_simp
  have ps0: "IPv4Packet_tcp_checksum_bytes
       (sample_ip\<lparr>ip_payload := sample_tcp\<lparr>tcp_checksum := 0, tcp_payload := []\<rparr>\<rparr>)
     = Inr [0xc0, 0xa8, 0x00, 0x01, 0xc0, 0xa8, 0x00, 0xc7, 0x00, 0x06, 0x00, 0x14]"
    by code_simp
  have h: "TCPPacket_raw_header (sample_tcp\<lparr>tcp_checksum := 0\<rparr>)
     = Inr [0x30, 0x39, 0x00, 0x50, 0x00, 0x00, 0x00, 0x01, 0x00, 0x00, 0x00, 0x02,
            0x50, 0x18, 0x20, 0x00, 0x00, 0x00, 0x00, 0x00]"
    by code_simp
  have h0: "TCPPacket_raw_header (sample_tcp\<lparr>tcp_checksum := 0, tcp_payload := []\<rparr>)
     = Inr [0x30, 0x39, 0x00, 0x50, 0x00, 0x00, 0x00, 0x01, 0x00, 0x00, 0x00, 0x02,
            0x50, 0x18, 0x20, 0x00, 0x00, 0x00, 0x00, 0x00]"
    by code_simp
  have c: "checksum ([0xc0, 0xa8, 0x00, 0x01, 0xc0, 0xa8, 0x00, 0xc7, 0x00, 0x06, 0x00, 0x18]
      @ [0x30, 0x39, 0x00, 0x50, 0x00, 0x00, 0x00, 0x01, 0x00, 0x00, 0x00, 0x02,
            0x50, 0x18, 0x20, 0x00, 0x00, 0x00, 0x00, 0x00]) = Inr 0xdd23"
    by (simp add: checksum_value ck_arith fold_carry_def spec_complement16_def spec_swap16_def)
  have c0: "checksum ([0xc0, 0xa8, 0x00, 0x01, 0xc0, 0xa8, 0x00, 0xc7, 0x00, 0x06, 0x00, 0x14]
      @ [0x30, 0x39, 0x00, 0x50, 0x00, 0x00, 0x00, 0x01, 0x00, 0x00, 0x00, 0x02,
            0x50, 0x18, 0x20, 0x00, 0x00, 0x00, 0x00, 0x00]) = Inr 0xdd27"
    by (simp add: checksum_value ck_arith fold_carry_def spec_complement16_def spec_swap16_def)
  from TCPPacket_replace_checksum_pseudo_header
         [OF sample_ip_decoded l, where x = "0xb1e6" and t = sample_tcp] ps h c
  have 1: "TCPPacket_replace_checksum sample_ip
     = Inr (sample_ip\<lparr>ip_payload := sample_tcp\<lparr>tcp_checksum := 0xdd23\<rparr>\<rparr>)"
    by auto
  from TCPPacket_replace_checksum_pseudo_header
         [OF sample_ip_decoded l, where x = "0xb1e6" and t = "sample_tcp\<lparr>tcp_payload := []\<rparr>"]
       ps0 h0 c0
  have 2: "TCPPacket_replace_checksum (sample_ip\<lparr>ip_payload := sample_tcp\<lparr>tcp_payload := []\<rparr>\<rparr>)
     = Inr (sample_ip\<lparr>ip_payload := sample_tcp\<lparr>tcp_checksum := 0xdd27, tcp_payload := []\<rparr>\<rparr>)"
    by auto
  from 1 2 ps ps0 sample_ip_decoded show ?thesis by simp
qed

section \<open>Reset forging\<close>

lemma forge_reset_value:
  assumes "IPv4Packet_init octets = Inr p"
  shows "\<exists>P Q c P' Q' pseudo c'.
      length P = 10 \<and> Q = slice octets 12 16 @ slice octets 16 20
                         @ be_bytes (nat ((ip_ihl p - 5) * 4)) (ip_options p) \<and>
      length P' = 16 \<and> length Q' = 2 + nat ((tcp_data_offset (ip_payload p) - 5) * 4) \<and>
      pseudo = slice octets 12 16 @ slice octets 16 20 @ [0, 6]
                @ be_bytes 2 (int (length P' + 2 + length Q')) \<and>
      checksum (P @ [0, 0] @ Q) = Inr c \<and>
      checksum (pseudo @ P' @ [0, 0] @ Q') = Inr c' \<and>
      IPv4Packet_replace_checksum (p\<lparr>ip_payload := reset_fields s (ip_payload p)\<rparr>)
        = Inr (p\<lparr>ip_checksum := c, ip_payload := reset_fields s (ip_payload p)\<rparr>) \<and>
      TCPPacket_replace_checksum (p\<lparr>ip_checksum := c, ip_payload := reset_fields s (ip_payload p)\<rparr>)
        = Inr (p\<lparr>ip_checksum := c,
                 ip_payload := (reset_fields s (ip_payload p))\<lparr>tcp_checksum := c'\<rparr>\<rparr>) \<and>
      TCPPacket_forge_reset p s
        = Inr (p\<lparr>ip_checksum := c,
                 ip_payload := (reset_fields s (ip_payload p))\<lparr>tcp_checksum := c'\<rparr>\<rparr>) \<and>
      IPv4Packet_raw_header (p\<lparr>ip_checksum := c,
                 ip_payload := (reset_fields s (ip_payload p))\<lparr>tcp_checksum := c'\<rparr>\<rparr>)
        = Inr (P @ be_bytes 2 c @ Q) \<and>
      TCPPacket_raw_header ((reset_fields s (ip_payload p))\<lparr>tcp_checksum := c'\<rparr>)
        = Inr (P' @ be_bytes 2 c' @ Q') \<and>
      IPv4Packet_tcp_checksum_bytes (p\<lparr>ip_checksum := c,
                 ip_payload := (reset_fields s (ip_payload p))\<lparr>tcp_checksum := c'\<rparr>\<rparr>)
        = Inr pseudo"
proof -
  let ?t = "reset_fields s (ip_payload p)"
  let ?p0 = "p\<lparr>ip_payload := ?t\<rparr>"
  note a = decoded_addresses(1,2) [OF assms]
  note pr = decoded_addresses(3) [OF assms]
  have a0: "ip_address (ip_source_address ?p0) = map uint (slice octets 12 16)"
    "ip_address (ip_dest_address ?p0) = map uint (slice octets 16 20)"
    using a by simp_all
  from IPv4Packet_replace_checksum_value [OF a0] obtain P Q c
    where P: "length P = 10"
      and Q: "Q = slice octets 12 16 @ slice octets 16 20
                @ be_bytes (nat ((ip_ihl p - 5) * 4)) (ip_options p)"
      and h: "\<And>x t. IPv4Packet_raw_header (?p0\<lparr>ip_checksum := x, ip_payload := t\<rparr>)
                    = Inr (P @ be_bytes 2 x @ Q)"
      and c: "checksum (P @ [0, 0] @ Q) = Inr c"
      and r: "IPv4Packet_replace_checksum ?p0 = Inr (?p0\<lparr>ip_checksum := c\<rparr>)"
    by (auto simp del: bytes_concat.simps)
  let ?p1 = "p\<lparr>ip_checksum := c, ip_payload := ?t\<rparr>"
  have p1: "?p0\<lparr>ip_checksum := c\<rparr> = ?p1" by (cases p) simp
  have a1: "ip_address (ip_source_address ?p1) = map uint (slice octets 12 16)"
    "ip_address (ip_dest_address ?p1) = map uint (slice octets 16 20)"
    using a by simp_all
  from TCPPacket_replace_checksum_value [OF a1] obtain P' Q' pseudo c'
    where P': "length P' = 16"
      and Q': "length Q' = 2 + nat ((tcp_data_offset (ip_payload ?p1) - 5) * 4)"
      and h': "\<And>x pl. TCPPacket_raw_header ((ip_payload ?p1)\<lparr>tcp_checksum := x, tcp_payload := pl\<rparr>)
                      = Inr (P' @ be_bytes 2 x @ Q')"
      and ps: "pseudo = slice octets 12 16 @ slice octets 16 20 @ [0, word_of_int (ip_protocol ?p1)]
                @ be_bytes 2 (int (length P' + 2 + length Q' + length (tcp_payload (ip_payload ?p1))))"
      and pb: "\<And>x. IPv4Packet_tcp_checksum_bytes (?p1\<lparr>ip_payload := (ip_payload ?p1)\<lparr>tcp_checksum := x\<rparr>\<rparr>)
                      = Inr pseudo"
      and c': "checksum (pseudo @ P' @ [0, 0] @ Q') = Inr c'"
      and r': "TCPPacket_replace_checksum ?p1
                 = Inr (?p1\<lparr>ip_payload := (ip_payload ?p1)\<lparr>tcp_checksum := c'\<rparr>\<rparr>)"
    by blast
  let ?p2 = "p\<lparr>ip_checksum := c, ip_payload := ?t\<lparr>tcp_checksum := c'\<rparr>\<rparr>"
  have p2: "?p1\<lparr>ip_payload := (ip_payload ?p1)\<lparr>tcp_checksum := x\<rparr>\<rparr>
          = p\<lparr>ip_checksum := c, ip_payload := ?t\<lparr>tcp_checksum := x\<rparr>\<rparr>" for x
    by simp
  have empty: "tcp_payload ?t = []" and off: "tcp_data_offset ?t = tcp_data_offset (ip_payload p)"
    by (simp_all add: reset_fields_def)
  have 1: "length Q' = 2 + nat ((tcp_data_offset (ip_payload p) - 5) * 4)"
    using Q' off by simp
  have 2: "pseudo = slice octets 12 16 @ slice octets 16 20 @ [0, 6]
                @ be_bytes 2 (int (length P' + 2 + length Q'))"
    using ps pr empty by simp
  have 3: "IPv4Packet_replace_checksum ?p0 = Inr ?p1" using r p1 by simp
  have 4: "TCPPacket_replace_checksum ?p1 = Inr ?p2" using r' p2 by simp
  have 5: "TCPPacket_forge_reset p s = Inr ?p2"
    unfolding TCPPacket_forge_reset_def Let_def 3 ebind_Inr 4 ..
  have 6: "IPv4Packet_raw_header ?p2 = Inr (P @ be_bytes 2 c @ Q)"
    using h [where x = c and t = "?t\<lparr>tcp_checksum := c'\<rparr>"] by simp
  have 7: "TCPPacket_raw_header (?t\<lparr>tcp_checksum := c'\<rparr>) = Inr (P' @ be_bytes 2 c' @ Q')"
    using h' [where x = c' and pl = "tcp_payload ?t"] by simp
  have 8: "IPv4Packet_tcp_checksum_bytes ?p2 = Inr pseudo"
    using pb [of c'] p2 by simp
  from P Q P' 1 2 c c' 3 4 5 6 7 8 show ?thesis by blast
qed

lemma option_bytes_bound: "x \<le> 15 \<Longrightarrow> nat ((x - 5) * 4) \<le> 40"
  by simp

text \<open>
  Claim C2, as stated: after \<^verbatim>\<open>forge_reset\<close> on any decoded frame, the TCP checksum is
  self-consistent. On the frame below, whose IPv4 buffer has 19 bytes, the destination
  address has three bytes and the pseudo-header 11, so the checksum field lies at an odd
  offset of the checksummed bytes: the checksum over the pseudo-header and the header with
  the recomputed field in place is \<^verbatim>\<open>0x728d\<close>, not 0.
\<close>

theorem forge_reset_spec_counterexample:
  "ebind (EthernetFrame_init odd_frame)
     (\<lambda>f. ebind (TCPPacket_forge_reset (eth_payload f) 12345)
       (\<lambda>p. ebind (IPv4Packet_tcp_checksum_bytes p)
         (\<lambda>pseudo. ebind (TCPPacket_raw_header (ip_payload p))
           (\<lambda>th. ebind (checksum (pseudo @ th))
             (\<lambda>c. Inr (pseudo, th, c))))))
   = Inr ([0xc0, 0xa8, 0x00, 0x01, 0x50, 0x10, 0x07, 0x00, 0x06, 0x00, 0x14],
          [0x30, 0x39, 0x00, 0x50, 0x00, 0x00, 0x30, 0x39, 0x00, 0x00, 0x00, 0x00,
           0x50, 0x04, 0x00, 0x00, 0x07, 0x95, 0x00, 0x00],
          0x728d)"
  by code_simp

text \<open>
  Claim C2, amended. For every decoded frame whose buffer holds the 20 fixed bytes of the
  IPv4 header (at least 34 bytes) and every sequence value \<open>s\<close>, \<^verbatim>\<open>forge_reset(s)\<close> returns:
  RST is set and the other eight flags are clear, the sequence number is \<open>s\<close>, the ack
  number, window size and urgent pointer are 0, the payload is empty, and both checksums
  are self-consistent: the checksum of the pseudo-header followed by the TCP header, and
  the checksum of the IPv4 header, each with its recomputed field in place, are 0. The IPv4
  layer's recomputation runs first, the TCP layer's own on its result.
\<close>

theorem forge_reset_spec:
  assumes "EthernetFrame_init octets = Inr f" and "34 \<le> length octets"
  shows "\<exists>p1 p' pseudo th ih.
     IPv4Packet_replace_checksum
       ((eth_payload f)\<lparr>ip_payload := reset_fields s (ip_payload (eth_payload f))\<rparr>) = Inr p1 \<and>
     TCPPacket_replace_checksum p1 = Inr p' \<and>
     TCPPacket_forge_reset (eth_payload f) s = Inr p' \<and>
     tcp_RST (ip_payload p') \<and>
     \<not> tcp_NS (ip_payload p') \<and> \<not> tcp_CWR (ip_payload p') \<and> \<not> tcp_ECE (ip_payload p') \<and>
     \<not> tcp_URG (ip_payload p') \<and> \<not> tcp_ACK (ip_payload p') \<and> \<not> tcp_PSH (ip_payload p') \<and>
     \<not> tcp_SYN (ip_payload p') \<and> \<not> tcp_FIN (ip_payload p') \<and>
     tcp_sequence (ip_payload p') = s \<and> tcp_ack_number (ip_payload p') = 0 \<and>
     tcp_window_size (ip_payload p') = 0 \<and> tcp_urgent_pointer (ip_payload p') = 0 \<and>
     tcp_payload (ip_payload p') = [] \<and>
     IPv4Packet_tcp_checksum_bytes p' = Inr pseudo \<and>
     TCPPacket_raw_header (ip_payload p') = Inr th \<and> checksum (pseudo @ th) = Inr 0 \<and>
     IPv4Packet_raw_header p' = Inr ih \<and> checksum ih = Inr 0"
proof -
  let ?p = "eth_payload f"
  let ?o = "slice_from octets 14"
  note d = EthernetFrame_init_Inr(1) [OF assms(1)]
  have len: "20 \<le> length ?o" using assms(2) by (simp add: slice_from_nonneg)
  note b = decoded_addresses(5,7) [OF d]
  from forge_reset_value [OF d, of s] obtain P Q c P' Q' pseudo c'
    where P: "length P = 10"
      and Q: "Q = slice ?o 12 16 @ slice ?o 16 20 @ be_bytes (nat ((ip_ihl ?p - 5) * 4)) (ip_options ?p)"
      and P': "length P' = 16"
      and Q': "length Q' = 2 + nat ((tcp_data_offset (ip_payload ?p) - 5) * 4)"
      and ps: "pseudo = slice ?o 12 16 @ slice ?o 16 20 @ [0, 6]
                @ be_bytes 2 (int (length P' + 2 + length Q'))"
      and c: "checksum (P @ [0, 0] @ Q) = Inr c"
      and c': "checksum (pseudo @ P' @ [0, 0] @ Q') = Inr c'"
      and r1: "IPv4Packet_replace_checksum (?p\<lparr>ip_payload := reset_fields s (ip_payload ?p)\<rparr>)
        = Inr (?p\<lparr>ip_checksum := c, ip_payload := reset_fields s (ip_payload ?p)\<rparr>)"
      and r2: "TCPPacket_replace_checksum (?p\<lparr>ip_checksum := c, ip_payload := reset_fields s (ip_payload ?p)\<rparr>)
        = Inr (?p\<lparr>ip_checksum := c,
                 ip_payload := (reset_fields s (ip_payload ?p))\<lparr>tcp_checksum := c'\<rparr>\<rparr>)"
      and r: "TCPPacket_forge_reset ?p s
        = Inr (?p\<lparr>ip_checksum := c,
                 ip_payload := (reset_fields s (ip_payload ?p))\<lparr>tcp_checksum := c'\<rparr>\<rparr>)"
      and ih: "IPv4Packet_raw_header (?p\<lparr>ip_checksum := c,
                 ip_payload := (reset_fields s (ip_payload ?p))\<lparr>tcp_checksum := c'\<rparr>\<rparr>)
        = Inr (P @ be_bytes 2 c @ Q)"
      and th: "TCPPacket_raw_header ((reset_fields s (ip_payload ?p))\<lparr>tcp_checksum := c'\<rparr>)
        = Inr (P' @ be_bytes 2 c' @ Q')"
      and pb: "IPv4Packet_tcp_checksum_bytes (?p\<lparr>ip_checksum := c,
                 ip_payload := (reset_fields s (ip_payload ?p))\<lparr>tcp_checksum := c'\<rparr>\<rparr>)
        = Inr pseudo"
    by blast
  let ?p' = "?p\<lparr>ip_checksum := c,
                 ip_payload := (reset_fields s (ip_payload ?p))\<lparr>tcp_checksum := c'\<rparr>\<rparr>"
  have lQ: "length Q \<le> 48"
    using option_bytes_bound [OF b(1)] len by (simp add: Q length_slice)
  have lps: "length pseudo = 12"
    using len by (simp add: ps length_slice)
  have lQ': "length Q' \<le> 42"
    using option_bytes_bound [OF b(2)] by (simp add: Q')
  have ip0: "checksum (P @ be_bytes 2 c @ Q) = Inr 0"
    using P lQ c by (intro checksum_field_inserted) simp_all
  have "checksum ((pseudo @ P') @ be_bytes 2 c' @ Q') = Inr 0"
    using P' lps lQ' c' by (intro checksum_field_inserted) simp_all
  then have tcp0: "checksum (pseudo @ P' @ be_bytes 2 c' @ Q') = Inr 0" by simp
  have fl: "tcp_RST (ip_payload ?p')" "\<not> tcp_NS (ip_payload ?p')" "\<not> tcp_CWR (ip_payload ?p')"
    "\<not> tcp_ECE (ip_payload ?p')" "\<not> tcp_URG (ip_payload ?p')" "\<not> tcp_ACK (ip_payload ?p')"
    "\<not> tcp_PSH (ip_payload ?p')" "\<not> tcp_SYN (ip_payload ?p')" "\<not> tcp_FIN (ip_payload ?p')"
    "tcp_sequence (ip_payload ?p') = s" "tcp_ack_number (ip_payload ?p') = 0"
    "tcp_window_size (ip_payload ?p') = 0" "tcp_urgent_pointer (ip_payload ?p') = 0"
    "tcp_payload (ip_payload ?p') = []"
    by (simp_all add: reset_fields_def)
  have th': "TCPPacket_raw_header (ip_payload ?p') = Inr (P' @ be_bytes 2 c' @ Q')"
    using th by simp
  show ?thesis
    by (intro exI [of _ "?p\<lparr>ip_checksum := c, ip_payload := reset_fields s (ip_payload ?p)\<rparr>"]
        exI [of _ ?p'] exI [of _ pseudo] exI [of _ "P' @ be_bytes 2 c' @ Q'"]
        exI [of _ "P @ be_bytes 2 c @ Q"] conjI r1 r2 r fl pb th' tcp0 ih ip0)
qed

theorem forge_reset_spec_witness:
  "\<exists>p'. TCPPacket_forge_reset sample_ip 12345 = Inr p' \<and>
        ip_checksum p' = 0x9c6d \<and> tcp_checksum (ip_payload p') = 0xcd05 \<and>
        tcp_RST (ip_payload p') \<and> \<not> tcp_ACK (ip_payload p') \<and> \<not> tcp_PSH (ip_payload p') \<and>
        tcp_sequence (ip_payload p') = 12345 \<and> tcp_payload (ip_payload p') = [] \<and>
        (\<exists>pseudo th. IPv4Packet_tcp_checksum_bytes p' = Inr pseudo \<and>
           TCPPacket_raw_header (ip_payload p') = Inr th \<and> checksum (pseudo @ th) = Inr 0) \<and>
        (\<exists>ih. IPv4Packet_raw_header p' = Inr ih \<and> checksum ih = Inr 0)"
proof -
  have l: "34 \<le> length sample_frame" by simp
  from forge_reset_spec [OF sample_frame_decoded l, of 12345] obtain p' pseudo th ih
    where r: "TCPPacket_forge_reset sample_ip 12345 = Inr p'"
      and f: "tcp_RST (ip_payload p')" "\<not> tcp_ACK (ip_payload p')" "\<not> tcp_PSH (ip_payload p')"
        "tcp_sequence (ip_payload p') = 12345" "tcp_payload (ip_payload p') = []"
      and t: "IPv4Packet_tcp_checksum_bytes p' = Inr pseudo"
        "TCPPacket_raw_header (ip_payload p') = Inr th" "checksum (pseudo @ th) = Inr 0"
      and i: "IPv4Packet_raw_header p' = Inr ih" "checksum ih = Inr 0"
    by auto
  have "ebind (TCPPacket_forge_reset sample_ip 12345)
          (\<lambda>p. Inr (ip_checksum p, tcp_checksum (ip_payload p))) = Inr (0x9c6d, 0xcd05)"
    by code_simp
  with r have "ip_checksum p' = 0x9c6d" "tcp_checksum (ip_payload p') = 0xcd05"
    by simp_all
  with r f t i show ?thesis by blast
qed

lemma IPv4Packet_raw_length:
  assumes "ip_address (ip_source_address p) = map uint (src :: bytes)"
    and "ip_address (ip_dest_address p) = map uint (dst :: bytes)"
  shows "\<exists>r. IPv4Packet_raw p = Inr r \<and>
           length r = 32 + length src + length dst + nat ((ip_ihl p - 5) * 4)
                      + nat ((tcp_data_offset (ip_payload p) - 5) * 4)
                      + length (tcp_payload (ip_payload p))"
  using assms
  by (simp add: IPv4Packet_raw_def IPv4Packet_raw_header_value [of p src dst]
      TCPPacket_raw_def TCPPacket_raw_header_value)

text \<open>
  Claim C10, as stated: whenever the original TCP payload is not empty, the total-length
  field exceeds the length of the serialised IPv4 packet after \<^verbatim>\<open>forge_reset\<close>. Decoding
  takes every byte after the TCP header as payload and does not compare the total-length
  field with the buffer: on the padded frame below the payload is the six padding bytes,
  and after \<^verbatim>\<open>forge_reset\<close> the total length, 40, equals the serialised length.
\<close>

theorem forge_reset_length_counterexample:
  "ebind (EthernetFrame_init padded_frame)
     (\<lambda>f. ebind (TCPPacket_forge_reset (eth_payload f) 12345)
       (\<lambda>p. ebind (IPv4Packet_raw p)
         (\<lambda>r. Inr (tcp_payload (ip_payload (eth_payload f)), ip_length p, length r))))
   = Inr ([0x00, 0x00, 0x00, 0x00, 0x00, 0x00], 40, 40)"
  by code_simp

text \<open>
  Claim C10, amended. For every decoded frame, \<^verbatim>\<open>forge_reset\<close> returns and leaves version,
  IHL, DSCP, ECN, total length, identification, flags, fragment offset, TTL, protocol, both
  addresses and options of the IPv4 layer as they were. The serialised IPv4 packet gets
  shorter by the length of the payload, so whenever the payload was not empty and the
  total-length field was at least the serialised length before the call, the total-length
  field exceeds the serialised length after it.
\<close>

theorem forge_reset_frame_effect:
  assumes "EthernetFrame_init octets = Inr f"
  shows "\<exists>p' r r'.
     TCPPacket_forge_reset (eth_payload f) s = Inr p' \<and>
     ip_version p' = ip_version (eth_payload f) \<and> ip_ihl p' = ip_ihl (eth_payload f) \<and>
     ip_dscp p' = ip_dscp (eth_payload f) \<and> ip_ecn p' = ip_ecn (eth_payload f) \<and>
     ip_length p' = ip_length (eth_payload f) \<and>
     ip_identification p' = ip_identification (eth_payload f) \<and>
     ip_flags p' = ip_flags (eth_payload f) \<and>
     ip_fragment_offset p' = ip_fragment_offset (eth_payload f) \<and>
     ip_ttl p' = ip_ttl (eth_payload f) \<and> ip_protocol p' = ip_protocol (eth_payload f) \<and>
     ip_source_address p' = ip_source_address (eth_payload f) \<and>
     ip_dest_address p' = ip_dest_address (eth_payload f) \<and>
     ip_options p' = ip_options (eth_payload f) \<and>
     IPv4Packet_raw (eth_payload f) = Inr r \<and> IPv4Packet_raw p' = Inr r' \<and>
     length r = length r' + length (tcp_payload (ip_payload (eth_payload f))) \<and>
     (tcp_payload (ip_payload (eth_payload f)) \<noteq> [] \<longrightarrow>
      int (length r) \<le> ip_length (eth_payload f) \<longrightarrow> int (length r') < ip_length p')"
proof -
  let ?p = "eth_payload f"
  let ?o = "slice_from octets 14"
  note d = EthernetFrame_init_Inr(1) [OF assms(1)]
  note a = decoded_addresses(1,2) [OF d]
  from forge_reset_value [OF d, of s] obtain c c'
    where r: "TCPPacket_forge_reset ?p s
        = Inr (?p\<lparr>ip_checksum := c,
                 ip_payload := (reset_fields s (ip_payload ?p))\<lparr>tcp_checksum := c'\<rparr>\<rparr>)"
    by blast
  let ?p' = "?p\<lparr>ip_checksum := c,
                 ip_payload := (reset_fields s (ip_payload ?p))\<lparr>tcp_checksum := c'\<rparr>\<rparr>"
  have a': "ip_address (ip_source_address ?p') = map uint (slice ?o 12 16)"
    "ip_address (ip_dest_address ?p') = map uint (slice ?o 16 20)"
    using a by simp_all
  from IPv4Packet_raw_length [OF a] obtain r1
    where r1: "IPv4Packet_raw ?p = Inr r1"
      and l1: "length r1 = 32 + length (slice ?o 12 16) + length (slice ?o 16 20)
                 + nat ((ip_ihl ?p - 5) * 4) + nat ((tcp_data_offset (ip_payload ?p) - 5) * 4)
                 + length (tcp_payload (ip_payload ?p))"
    by blast
  from IPv4Packet_raw_length [OF a'] obtain r2
    where r2: "IPv4Packet_raw ?p' = Inr r2"
      and l2: "length r2 = 32 + length (slice ?o 12 16) + length (slice ?o 16 20)
                 + nat ((ip_ihl ?p - 5) * 4) + nat ((tcp_data_offset (ip_payload ?p) - 5) * 4)"
    by (auto simp: reset_fields_def)
  have l: "length r1 = length r2 + length (tcp_payload (ip_payload ?p))"
    using l1 l2 by simp
  have e: "tcp_payload (ip_payload ?p) \<noteq> [] \<longrightarrow> int (length r1) \<le> ip_length ?p
             \<longrightarrow> int (length r2) < ip_length ?p'"
  proof (intro impI)
    assume "tcp_payload (ip_payload ?p) \<noteq> []" and le: "int (length r1) \<le> ip_length ?p"
    then have "0 < length (tcp_payload (ip_payload ?p))" by simp
    moreover have "ip_length ?p' = ip_length ?p" by simp
    ultimately show "int (length r2) < ip_length ?p'" using l le by linarith
  qed
  have fields: "ip_version ?p' = ip_version ?p" "ip_ihl ?p' = ip_ihl ?p" "ip_dscp ?p' = ip_dscp ?p"
    "ip_ecn ?p' = ip_ecn ?p" "ip_length ?p' = ip_length ?p"
    "ip_identification ?p' = ip_identification ?p" "ip_flags ?p' = ip_flags ?p"
    "ip_fragment_offset ?p' = ip_fragment_offset ?p" "ip_ttl ?p' = ip_ttl ?p"
    "ip_protocol ?p' = ip_protocol ?p" "ip_source_address ?p' = ip_source_address ?p"
    "ip_dest_address ?p' = ip_dest_address ?p" "ip_options ?p' = ip_options ?p"
    by simp_all
  show ?thesis
    by (intro exI [of _ ?p'] exI [of _ r1] exI [of _ r2] conjI r fields r1 r2 l e)
qed

theorem forge_reset_frame_effect_witness:
  "\<exists>p' r'. TCPPacket_forge_reset sample_ip 12345 = Inr p' \<and> IPv4Packet_raw p' = Inr r' \<and>
     IPv4Packet_raw sample_ip = Inr (drop 14 sample_frame) \<and>
     ip_length p' = 44 \<and> length r' = 40 \<and> ip_ttl p' = 64 \<and> ip_identification p' = 0x1c46"
proof -
  have raw: "IPv4Packet_raw sample_ip = Inr (drop 14 sample_frame)" by code_simp
  from forge_reset_frame_effect [OF sample_frame_decoded, of 12345] raw obtain p' r'
    where "TCPPacket_forge_reset sample_ip 12345 = Inr p'" "IPv4Packet_raw p' = Inr r'"
      "ip_length p' = 44" "ip_ttl p' = 64" "ip_identification p' = 0x1c46"
      "length (drop 14 sample_frame) = length r' + length (tcp_payload sample_tcp)"
      "int (length r') < ip_length p'"
    by auto
  with raw show ?thesis by auto
qed

end
